theory Spec2Isabelle
  imports Complex_Main "HOL-Library.Log_Nat"
begin

section \<open>JavaScript numbers\<close>

text \<open>
  A JavaScript \<open>number\<close> is an IEEE-754 binary64 value. The finite ones are modelled by
  their exact rational value; every arithmetic operation of the source computes the exact
  result and rounds it to the nearest value with a 53-bit significand, ties to even (\<open>fl\<close>).
  The exponent is not bounded, so the model agrees with binary64 wherever no overflow to
  \<open>Infinity\<close> and no underflow below \<open>2 powi -1022\<close> happens; \<open>NaN\<close> and the
  infinities are outside the model (the ingestion filter \<open>record.money > 0\<close> admits no
  \<open>NaN\<close>). Counters (\<open>count\<close>, \<open>orders\<close>, \<open>length\<close>) are integers far below
  \<open>2 ^ 53\<close>, where binary64 is exact: they are modelled by \<open>nat\<close>.
\<close>

type_synonym number = rat

definition ilog2 :: "rat \<Rightarrow> int" where
  \<comment> \<open>for \<open>0 < x\<close>: the exponent \<open>e\<close> with \<open>2 powi e \<le> x < 2 powi (e + 1)\<close>\<close>
  "ilog2 x = (let (a, b) = quotient_of x; d = bitlen a - bitlen b
              in if x < 2 powi d then d - 1 else d)"

definition round_even :: "rat \<Rightarrow> int" where
  \<comment> \<open>nearest integer, ties to the even one\<close>
  "round_even y = (let f = \<lfloor>y\<rfloor>; d = y - of_int f
                   in if d < 1 / 2 then f else if 1 / 2 < d then f + 1
                      else if even f then f else f + 1)"

definition fl :: "rat \<Rightarrow> number" where
  \<comment> \<open>round to nearest binary64 (53-bit significand), ties to even\<close>
  "fl x = (if x = 0 then 0
           else let q = ilog2 \<bar>x\<bar> - 52
                in of_int (round_even (x / 2 powi q)) * 2 powi q)"

definition fadd :: "number \<Rightarrow> number \<Rightarrow> number" where
  "fadd x y = fl (x + y)"

definition fmul :: "number \<Rightarrow> number \<Rightarrow> number" where
  "fmul x y = fl (x * y)"

definition fdiv :: "number \<Rightarrow> number \<Rightarrow> number" where
  "fdiv x y = fl (x / y)"

definition toFixed :: "nat \<Rightarrow> number \<Rightarrow> rat" where
  \<comment> \<open>\<open>x.toFixed(d)\<close>: the decimal string with \<open>d\<close> fraction digits, given by its value
      \<open>n / 10 ^ d\<close>, where \<open>n\<close> is the integer nearest to \<open>x * 10 ^ d\<close> (of two such,
      the larger in magnitude); from \<open>10 ^ 21\<close> on the string is that of \<open>x\<close> itself\<close>
  "toFixed d x = (if 10 ^ 21 \<le> \<bar>x\<bar> then x
                  else sgn x * of_int \<lfloor>\<bar>x\<bar> * 10 ^ d + 1 / 2\<rfloor> / 10 ^ d)"

definition parseFloat :: "rat \<Rightarrow> number" where
  \<comment> \<open>\<open>parseFloat\<close> of a decimal string, given by the value of the string\<close>
  "parseFloat v = fl v"


section \<open>JavaScript objects used as dictionaries\<close>

text \<open>
  An object created by \<open>{}\<close> is modelled by the list of its own properties in the order
  in which they were created. Reading \<open>acc[k]\<close> finds an own property, or else a
  property inherited from \<open>Object.prototype\<close>, or else \<open>undefined\<close>.
\<close>

type_synonym ('k, 'v) object = "('k \<times> 'v) list"

definition Object_prototype_keys :: "string list" where
  "Object_prototype_keys =
     [''constructor'', ''__defineGetter__'', ''__defineSetter__'', ''hasOwnProperty'',
      ''__lookupGetter__'', ''__lookupSetter__'', ''isPrototypeOf'',
      ''propertyIsEnumerable'', ''toString'', ''valueOf'', ''__proto__'',
      ''toLocaleString'']"

datatype 'v property = Own 'v | Inherited | Undefined

definition js_get :: "(string, 'v) object \<Rightarrow> string \<Rightarrow> 'v property" where
  "js_get acc k = (case map_of acc k of
                     Some v \<Rightarrow> Own v
                   | None \<Rightarrow> if k \<in> set Object_prototype_keys then Inherited else Undefined)"

fun js_set :: "('k, 'v) object \<Rightarrow> 'k \<Rightarrow> 'v \<Rightarrow> ('k, 'v) object" where
  \<comment> \<open>\<open>acc[k] = v\<close> creating or overwriting an own property\<close>
  "js_set [] k v = [(k, v)]"
| "js_set (p # ps) k v = (if fst p = k then (k, v) # ps else p # js_set ps k v)"

fun js_update :: "('k, 'v) object \<Rightarrow> 'k \<Rightarrow> ('v \<Rightarrow> 'v) \<Rightarrow> ('k, 'v) object" where
  \<comment> \<open>a write \<open>acc[k].field = e\<close> through the own property \<open>k\<close>; when \<open>acc[k]\<close> is an
      inherited object the write lands on that object and \<open>acc\<close> keeps its own properties\<close>
  "js_update [] k f = []"
| "js_update (p # ps) k f = (if fst p = k then (k, f (snd p)) # ps else p # js_update ps k f)"

definition is_digit :: "char \<Rightarrow> bool" where
  "is_digit c = (c \<in> set ''0123456789'')"

definition index_value :: "string \<Rightarrow> int" where
  "index_value k = foldl (\<lambda>n c. 10 * n + (of_char c - 48)) 0 k"

definition is_array_index :: "string \<Rightarrow> bool" where
  \<comment> \<open>the canonical decimal string of an integer from \<open>0\<close> to \<open>2 ^ 32 - 2\<close>\<close>
  "is_array_index k =
     (k \<noteq> [] \<and> list_all is_digit k \<and> (k = ''0'' \<or> hd k \<noteq> CHR ''0'') \<and>
      length k \<le> 10 \<and> index_value k < 4294967295)"

definition Object_entries :: "(string, 'v) object \<Rightarrow> (string \<times> 'v) list" where
  \<comment> \<open>own properties in the order of \<open>Object.entries\<close>: array indices in ascending
      numeric order first, then the other keys in creation order\<close>
  "Object_entries acc =
     sort_key (\<lambda>p. index_value (fst p)) (filter (\<lambda>p. is_array_index (fst p)) acc) @
     filter (\<lambda>p. \<not> is_array_index (fst p)) acc"

definition Object_values :: "(string, 'v) object \<Rightarrow> 'v list" where
  "Object_values acc = map snd (Object_entries acc)"


section \<open>The analytics of \<open>App.tsx\<close>\<close>

text \<open>
  The definitions follow the \<open>analytics\<close> memo of the source, statement by statement,
  under the names of the source. Field names that two objects of the source share are
  told apart by a prefix: \<open>c_\<close>, \<open>h_\<close> and \<open>p_\<close> for the fields of the values of
  \<open>coffeeStats\<close>, \<open>hourlyStats\<close> and \<open>paymentStats\<close>; \<open>pay_method\<close>,
  \<open>pay_count\<close> and \<open>pay_revenue\<close> for \<open>method\<close>, \<open>count\<close> and \<open>revenue\<close> of a
  payments entry; \<open>hour_text\<close> and \<open>hour_revenue\<close> for \<open>hour\<close> and \<open>revenue\<close> of an
  hourly entry. The \<open>percentage\<close> of a payments entry, a string of the source, is given
  by the decimal value of that string.
\<close>

record SalesRecord =
  date :: string
  datetime :: string
  cash_type :: string
  card :: string
  money :: number
  coffee_name :: string
  hour :: number

subsection \<open>Basic statistics\<close>

definition totalRevenue :: "SalesRecord list \<Rightarrow> number" where
  "totalRevenue data = foldl (\<lambda>sum record. fadd sum (money record)) 0 data"

definition totalOrders :: "SalesRecord list \<Rightarrow> nat" where
  "totalOrders data = length data"

definition avgOrderValue :: "SalesRecord list \<Rightarrow> number" where
  "avgOrderValue data = fdiv (totalRevenue data) (of_nat (totalOrders data))"

definition uniqueCustomers :: "SalesRecord list \<Rightarrow> nat" where
  \<comment> \<open>the size of the \<open>Set\<close> of the cards\<close>
  "uniqueCustomers data = length (remdups (map card data))"

subsection \<open>Coffee type analysis\<close>

record coffee_stat =
  c_count :: nat
  c_revenue :: number
  c_avgPrice :: number

definition coffee_step :: "(string, coffee_stat) object \<Rightarrow> SalesRecord \<Rightarrow> (string, coffee_stat) object" where
  \<comment> \<open>\<open>!acc[coffee]\<close> holds only when \<open>acc[coffee]\<close> is \<open>undefined\<close>: an own
      property holds an object, an inherited one a function or \<open>Object.prototype\<close>\<close>
  "coffee_step acc record =
     (let coffee = coffee_name record;
          acc = (if js_get acc coffee = Undefined
                 then js_set acc coffee \<lparr>c_count = 0, c_revenue = 0, c_avgPrice = 0\<rparr> else acc);
          acc = js_update acc coffee (\<lambda>s. s\<lparr>c_count := c_count s + 1\<rparr>);
          acc = js_update acc coffee (\<lambda>s. s\<lparr>c_revenue := fadd (c_revenue s) (money record)\<rparr>);
          acc = js_update acc coffee
                  (\<lambda>s. s\<lparr>c_avgPrice := fdiv (c_revenue s) (of_nat (c_count s))\<rparr>)
      in acc)"

definition coffeeStats :: "SalesRecord list \<Rightarrow> (string, coffee_stat) object" where
  "coffeeStats data = foldl coffee_step [] data"

record product =
  name :: string
  count :: nat
  revenue :: number
  avgPrice :: number

definition coffeeChartData :: "SalesRecord list \<Rightarrow> product list" where
  "coffeeChartData data =
     map (\<lambda>(name, stats).
            \<lparr>name = name, count = c_count stats, revenue = c_revenue stats,
             avgPrice = parseFloat (toFixed 2 (c_avgPrice stats))\<rparr>)
         (Object_entries (coffeeStats data))"

subsection \<open>Hourly analysis\<close>

text \<open>
  The keys of \<open>hourlyStats\<close> are numbers; the property key of a number is its decimal
  string, which is never the name of an inherited property, and different numbers have
  different strings. The object is only read at the keys \<open>0\<close> to \<open>23\<close>, never
  enumerated, so it is keyed by the number itself.
\<close>

record hourly_stat =
  h_orders :: nat
  h_revenue :: number

definition hourly_step :: "(number, hourly_stat) object \<Rightarrow> SalesRecord \<Rightarrow> (number, hourly_stat) object" where
  "hourly_step acc record =
     (let hour = hour record;
          acc = (if map_of acc hour = None
                 then js_set acc hour \<lparr>h_orders = 0, h_revenue = 0\<rparr> else acc);
          acc = js_update acc hour (\<lambda>s. s\<lparr>h_orders := h_orders s + 1\<rparr>);
          acc = js_update acc hour (\<lambda>s. s\<lparr>h_revenue := fadd (h_revenue s) (money record)\<rparr>)
      in acc)"

definition hourlyStats :: "SalesRecord list \<Rightarrow> (number, hourly_stat) object" where
  "hourlyStats data = foldl hourly_step [] data"

fun digits_of :: "nat \<Rightarrow> string" where
  "digits_of n = (if n < 10 then [char_of (48 + n)]
                  else digits_of (n div 10) @ [char_of (48 + n mod 10)])"

definition hour_label :: "nat \<Rightarrow> string" where
  \<comment> \<open>the template string \<open>`${hour}:00`\<close>\<close>
  "hour_label h = digits_of h @ '':00''"

record hourly =
  hour_text :: string
  orders :: nat
  hour_revenue :: number

definition hourlyChartData :: "SalesRecord list \<Rightarrow> hourly list" where
  \<comment> \<open>\<open>hourlyStats[hour]?.orders || 0\<close> over the hours \<open>0\<close> to \<open>23\<close>, then the filter\<close>
  "hourlyChartData data =
     filter (\<lambda>item. 0 < orders item)
       (map (\<lambda>h. \<lparr>hour_text = hour_label h,
                   orders = (case map_of (hourlyStats data) (of_nat h) of
                               Some s \<Rightarrow> h_orders s | None \<Rightarrow> 0),
                   hour_revenue = (case map_of (hourlyStats data) (of_nat h) of
                               Some s \<Rightarrow> h_revenue s | None \<Rightarrow> 0)\<rparr>)
            [0..<24])"

subsection \<open>Payment method analysis\<close>

record payment_stat =
  p_count :: nat
  p_revenue :: number

definition payment_step :: "(string, payment_stat) object \<Rightarrow> SalesRecord \<Rightarrow> (string, payment_stat) object" where
  "payment_step acc record =
     (let method = cash_type record;
          acc = (if js_get acc method = Undefined
                 then js_set acc method \<lparr>p_count = 0, p_revenue = 0\<rparr> else acc);
          acc = js_update acc method (\<lambda>s. s\<lparr>p_count := p_count s + 1\<rparr>);
          acc = js_update acc method (\<lambda>s. s\<lparr>p_revenue := fadd (p_revenue s) (money record)\<rparr>)
      in acc)"

definition paymentStats :: "SalesRecord list \<Rightarrow> (string, payment_stat) object" where
  "paymentStats data = foldl payment_step [] data"

record payment =
  pay_method :: string
  pay_count :: nat
  pay_revenue :: number
  percentage :: rat

definition paymentChartData :: "SalesRecord list \<Rightarrow> payment list" where
  "paymentChartData data =
     map (\<lambda>(method, stats).
            \<lparr>pay_method = method, pay_count = p_count stats, pay_revenue = p_revenue stats,
             percentage =
               toFixed 1 (fmul (fdiv (of_nat (p_count stats)) (of_nat (totalOrders data))) 100)\<rparr>)
         (Object_entries (paymentStats data))"

subsection \<open>Customer frequency analysis\<close>

text \<open>
  A value of \<open>customerFrequency\<close> is a number, or, once \<open>+ 1\<close> was applied to an
  inherited function or object, a string (the text of that function followed by
  \<open>1\<close>s), which no comparison with a number accepts.
\<close>

datatype frequency = Num nat | Str

definition customer_step :: "(string, frequency) object \<Rightarrow> SalesRecord \<Rightarrow> (string, frequency) object" where
  \<comment> \<open>\<open>acc[customer] = (acc[customer] || 0) + 1\<close>; an assignment of a string to
      \<open>__proto__\<close> is ignored by its setter, any other key gets an own property\<close>
  "customer_step acc record =
     (let customer = card record;
          v = (case js_get acc customer of
                 Own (Num n) \<Rightarrow> Num (n + 1)
               | Own Str \<Rightarrow> Str
               | Inherited \<Rightarrow> Str
               | Undefined \<Rightarrow> Num 1)
      in if customer = ''__proto__'' then acc else js_set acc customer v)"

definition customerFrequency :: "SalesRecord list \<Rightarrow> (string, frequency) object" where
  "customerFrequency data = foldl customer_step [] data"

definition bucket_of :: "frequency \<Rightarrow> string" where
  \<comment> \<open>for a string \<open>=== 1\<close>, \<open><= 3\<close> and \<open><= 5\<close> are all false\<close>
  "bucket_of frequency =
     (case frequency of
        Num n \<Rightarrow> if n = 1 then ''1 order''
                 else if n \<le> 3 then ''2-3 orders''
                 else if n \<le> 5 then ''4-5 orders'' else ''6+ orders''
      | Str \<Rightarrow> ''6+ orders'')"

definition frequency_step :: "(string, nat) object \<Rightarrow> frequency \<Rightarrow> (string, nat) object" where
  \<comment> \<open>\<open>acc[bucket] = (acc[bucket] || 0) + 1\<close>; no bucket label is an inherited name\<close>
  "frequency_step acc frequency =
     (let bucket = bucket_of frequency
      in js_set acc bucket ((case map_of acc bucket of Some n \<Rightarrow> n | None \<Rightarrow> 0) + 1))"

definition frequencyDistribution :: "SalesRecord list \<Rightarrow> (string, nat) object" where
  "frequencyDistribution data =
     foldl frequency_step [] (Object_values (customerFrequency data))"

record frequency_row =
  bucket :: string
  customers :: nat

definition customerFrequencyData :: "SalesRecord list \<Rightarrow> frequency_row list" where
  "customerFrequencyData data =
     map (\<lambda>(bucket, count). \<lparr>bucket = bucket, customers = count\<rparr>)
         (Object_entries (frequencyDistribution data))"

subsection \<open>Price vs volume, and the result\<close>

record price_volume =
  coffee :: string
  price :: number
  volume :: nat

definition priceVolumeData :: "SalesRecord list \<Rightarrow> price_volume list" where
  "priceVolumeData data =
     map (\<lambda>item. \<lparr>coffee = name item, price = avgPrice item, volume = count item\<rparr>)
         (coffeeChartData data)"

datatype exception = Error string
  \<comment> \<open>a thrown error, by its name\<close>

record analytics_result =
  r_totalRevenue :: number
  r_totalOrders :: nat
  r_avgOrderValue :: number
  r_uniqueCustomers :: nat
  r_coffeeChartData :: "product list"
  r_hourlyChartData :: "hourly list"
  r_paymentChartData :: "payment list"
  r_customerFrequencyData :: "frequency_row list"
  r_priceVolumeData :: "price_volume list"

definition analytics :: "SalesRecord list \<Rightarrow> exception + analytics_result option" where
  \<comment> \<open>how the memo completes: \<open>Inl\<close> an error thrown, \<open>Inr\<close> the value returned, where
      \<open>None\<close> is the \<open>null\<close> of the source. No statement of the memo throws.\<close>
  "analytics data =
     (if length data = 0 then Inr None
      else Inr (Some \<lparr>r_totalRevenue = totalRevenue data,
                 r_totalOrders = totalOrders data,
                 r_avgOrderValue = avgOrderValue data,
                 r_uniqueCustomers = uniqueCustomers data,
                 r_coffeeChartData = coffeeChartData data,
                 r_hourlyChartData = hourlyChartData data,
                 r_paymentChartData = paymentChartData data,
                 r_customerFrequencyData = customerFrequencyData data,
                 r_priceVolumeData = priceVolumeData data\<rparr>))"

subsection \<open>Key insights\<close>

definition top_product :: "product list \<Rightarrow> exception + product" where
  \<comment> \<open>\<open>reduce\<close> without an initial value throws a \<open>TypeError\<close> on the empty array\<close>
  "top_product items =
     (case items of
        [] \<Rightarrow> Inl (Error ''TypeError'')
      | first # rest \<Rightarrow>
          Inr (foldl (\<lambda>top current. if revenue current > revenue top then current else top)
                     first rest))"


section \<open>Notions of the specification\<close>

definition first_seen :: "'a list \<Rightarrow> 'a list" where
  \<comment> \<open>the distinct values in the order in which each is first met in one scan\<close>
  "first_seen xs = foldl (\<lambda>seen x. if x \<in> set seen then seen else seen @ [x]) [] xs"

definition records_of :: "('r \<Rightarrow> 'k) \<Rightarrow> 'k \<Rightarrow> 'r list \<Rightarrow> 'r list" where
  \<comment> \<open>the records of one group, in input order\<close>
  "records_of key k data = filter (\<lambda>r. key r = k) data"

definition fsum :: "number list \<Rightarrow> number" where
  \<comment> \<open>the sum as the source accumulates it: left to right from \<open>0\<close>, rounding each addition\<close>
  "fsum ms = foldl fadd 0 ms"

definition input_contract :: "SalesRecord list \<Rightarrow> bool" where
  \<comment> \<open>positive amount, non-empty product name and customer, an hour from 0 to 23\<close>
  "input_contract data =
     (\<forall>r\<in>set data. 0 < money r \<and> coffee_name r \<noteq> [] \<and> card r \<noteq> []
        \<and> hour r \<in> set (map of_nat [0..<24]))"

definition hour_texts :: "string list" where
  \<comment> \<open>the texts of the hours 0 to 23, in this order\<close>
  "hour_texts =
     [''0:00'', ''1:00'', ''2:00'', ''3:00'', ''4:00'', ''5:00'', ''6:00'', ''7:00'',
      ''8:00'', ''9:00'', ''10:00'', ''11:00'', ''12:00'', ''13:00'', ''14:00'', ''15:00'',
      ''16:00'', ''17:00'', ''18:00'', ''19:00'', ''20:00'', ''21:00'', ''22:00'', ''23:00'']"

definition first_index :: "'a list \<Rightarrow> 'a \<Rightarrow> nat" where
  \<comment> \<open>the position at which \<open>x\<close> first occurs in \<open>xs\<close>\<close>
  "first_index xs x = length (takeWhile (\<lambda>y. y \<noteq> x) xs)"

definition product_revenue :: "SalesRecord list \<Rightarrow> string \<Rightarrow> number" where
  \<comment> \<open>the revenue of one product: the sum of the amounts of its records\<close>
  "product_revenue data k = fsum (map money (records_of coffee_name k data))"

definition plain_key :: "string \<Rightarrow> bool" where
  \<comment> \<open>not the name of a property that every object inherits\<close>
  "plain_key k = (k \<notin> set Object_prototype_keys)"

definition own_key_order :: "string list \<Rightarrow> string list" where
  \<comment> \<open>the order in which an object enumerates keys that were created in the order \<open>ks\<close>\<close>
  "own_key_order ks =
     sort_key index_value (filter is_array_index ks) @ filter (\<lambda>k. \<not> is_array_index k) ks"


section \<open>The grouping reductions in one shape\<close>

text \<open>
  The three grouping reductions of the source differ in the key and in what they
  accumulate. \<open>group_step\<close> is their common step, \<open>grouped\<close> the object it builds,
  written without a loop: the keys in first-seen order, each with the fold of its own
  records.
\<close>

definition group_step :: "('k \<Rightarrow> bool) \<Rightarrow> ('r \<Rightarrow> 'k) \<Rightarrow> 'v \<Rightarrow> ('r \<Rightarrow> 'v \<Rightarrow> 'v) \<Rightarrow> ('k, 'v) object \<Rightarrow> 'r \<Rightarrow> ('k, 'v) object" where
  "group_step ok key init upd acc r =
     (case map_of acc (key r) of
        Some v \<Rightarrow> js_update acc (key r) (upd r)
      | None \<Rightarrow> if ok (key r) then acc @ [(key r, upd r init)] else acc)"

definition grouped :: "('k \<Rightarrow> bool) \<Rightarrow> ('r \<Rightarrow> 'k) \<Rightarrow> 'v \<Rightarrow> ('r \<Rightarrow> 'v \<Rightarrow> 'v) \<Rightarrow> 'r list \<Rightarrow> ('k, 'v) object" where
  "grouped ok key init upd data =
     map (\<lambda>k. (k, foldl (\<lambda>v r. upd r v) init (records_of key k data)))
         (first_seen (filter ok (map key data)))"

definition coffee_add :: "SalesRecord \<Rightarrow> coffee_stat \<Rightarrow> coffee_stat" where
  "coffee_add r s =
     \<lparr>c_count = c_count s + 1, c_revenue = fadd (c_revenue s) (money r),
      c_avgPrice = fdiv (fadd (c_revenue s) (money r)) (of_nat (c_count s + 1))\<rparr>"

definition payment_add :: "SalesRecord \<Rightarrow> payment_stat \<Rightarrow> payment_stat" where
  "payment_add r s = \<lparr>p_count = p_count s + 1, p_revenue = fadd (p_revenue s) (money r)\<rparr>"

definition hourly_add :: "SalesRecord \<Rightarrow> hourly_stat \<Rightarrow> hourly_stat" where
  "hourly_add r s = \<lparr>h_orders = h_orders s + 1, h_revenue = fadd (h_revenue s) (money r)\<rparr>"

definition customer_add :: "SalesRecord \<Rightarrow> frequency \<Rightarrow> frequency" where
  "customer_add r v =
     (case v of Num n \<Rightarrow> if plain_key (card r) then Num (n + 1) else Str | Str \<Rightarrow> Str)"

definition keep_first_max :: "product \<Rightarrow> product \<Rightarrow> product" where
  "keep_first_max best current = (if revenue current > revenue best then current else best)"


section \<open>Sample inputs\<close>

definition mk_record :: "string \<Rightarrow> number \<Rightarrow> string \<Rightarrow> string \<Rightarrow> number \<Rightarrow> SalesRecord" where
  "mk_record p amount m customer h =
     \<lparr>date = ''2024-03-01'', datetime = ''2024-03-01 08:00:00'', cash_type = m,
      card = customer, money = amount, coffee_name = p, hour = h\<rparr>"

definition scenario_A :: "SalesRecord list" where
  \<comment> \<open>Scenario A of the specification\<close>
  "scenario_A =
     [mk_record ''Latte'' 3 ''cash'' ''c1'' 8,
      mk_record ''Latte'' 3 ''card'' ''c2'' 8,
      mk_record ''Espresso'' 2 ''cash'' ''c1'' 9]"

definition rounding_data :: "SalesRecord list" where
  \<comment> \<open>amounts 0.3, 0.2 and 0.1, as the nearest binary64 values\<close>
  "rounding_data =
     [mk_record ''Latte'' (fl (3 / 10)) ''cash'' ''c1'' 8,
      mk_record ''Espresso'' (fl (1 / 5)) ''card'' ''c2'' 8,
      mk_record ''Latte'' (fl (1 / 10)) ''cash'' ''c1'' 9]"

definition six_methods :: "SalesRecord list" where
  \<comment> \<open>six orders, each paid by another method\<close>
  "six_methods =
     [mk_record ''Latte'' 3 ''cash'' ''c1'' 8,
      mk_record ''Latte'' 3 ''card'' ''c2'' 8,
      mk_record ''Latte'' 3 ''voucher'' ''c3'' 9,
      mk_record ''Latte'' 3 ''transfer'' ''c4'' 9,
      mk_record ''Latte'' 3 ''cheque'' ''c5'' 10,
      mk_record ''Latte'' 3 ''coupon'' ''c6'' 10]"

definition numbered_products :: "SalesRecord list" where
  \<comment> \<open>products named by numbers\<close>
  "numbered_products =
     [mk_record ''20'' 4 ''cash'' ''c1'' 8,
      mk_record ''3'' 5 ''card'' ''c2'' 9]"

definition tied_products :: "SalesRecord list" where
  \<comment> \<open>two products named by numbers, with the same revenue\<close>
  "tied_products =
     [mk_record ''2'' 3 ''cash'' ''c1'' 8,
      mk_record ''1'' 3 ''card'' ''c2'' 9]"

definition tied_menu :: "SalesRecord list" where
  \<comment> \<open>two products with the same, maximum revenue, after a smaller one\<close>
  "tied_menu =
     [mk_record ''Zest'' 1 ''cash'' ''c1'' 8,
      mk_record ''Tea'' 5 ''card'' ''c2'' 9,
      mk_record ''Mocha'' 5 ''cash'' ''c3'' 9]"


definition inherited_product :: "SalesRecord list" where
  \<comment> \<open>a product named as a property of \<open>Object.prototype\<close>\<close>
  "inherited_product = [mk_record ''constructor'' 3 ''cash'' ''c1'' 8]"

definition inherited_customer :: "SalesRecord list" where
  \<comment> \<open>a customer named as a property of \<open>Object.prototype\<close>\<close>
  "inherited_customer = [mk_record ''Latte'' 3 ''cash'' ''__proto__'' 8]"

definition inherited_method_customer :: "SalesRecord list" where
  \<comment> \<open>a customer named as a method of \<open>Object.prototype\<close>\<close>
  "inherited_method_customer = [mk_record ''Latte'' 3 ''cash'' ''constructor'' 8]"


section \<open>Rounding of the number model\<close>

lemma round_even_error: "\<bar>of_int (round_even y) - y\<bar> \<le> 1 / 2"
  unfolding round_even_def Let_def by (auto simp: abs_if) linarith+

lemma ilog2_bounds:
  assumes "0 < x"
  shows "2 powi (ilog2 x) \<le> x" and "x < 2 powi (ilog2 x + 1)"
proof -
  obtain a b where q: "quotient_of x = (a, b)" by (cases "quotient_of x")
  have b: "0 < b" using q by (rule quotient_of_denom_pos)
  have x: "x = of_int a / of_int b" using q by (rule quotient_of_div)
  have a: "0 < a" using assms b x by (simp add: zero_less_divide_iff)
  define la lb where "la = bitlen a" and "lb = bitlen b"
  have la: "1 \<le> la" and lb: "1 \<le> lb"
    using a b bitlen_eq_zero_iff[of a] bitlen_eq_zero_iff[of b] bitlen_nonneg[of a] bitlen_nonneg[of b]
    unfolding la_def lb_def by linarith+
  have ba: "2 ^ nat (la - 1) \<le> a" "a < 2 ^ nat la"
    using bitlen_bounds[OF a] unfolding la_def by auto
  have bb: "2 ^ nat (lb - 1) \<le> b" "b < 2 ^ nat lb"
    using bitlen_bounds[OF b] unfolding lb_def by auto
  have pw: "(2::rat) powi k = of_int (2 ^ nat k)" if "0 \<le> k" for k
    using that by (simp add: power_int_def)
  have ra: "(2::rat) powi (la - 1) \<le> of_int a" "of_int a < (2::rat) powi la"
    using ba la by (simp_all add: pw del: of_int_power)
  have rb: "(2::rat) powi (lb - 1) \<le> of_int b" "of_int b < (2::rat) powi lb"
    using bb lb by (simp_all add: pw del: of_int_power)
  have "(2::rat) powi (la - lb - 1) = 2 powi (la - 1) / 2 powi lb"
    by (simp add: power_int_diff)
  also have "\<dots> < of_int a / of_int b"
    by (rule frac_less2) (use ra rb b in simp_all)
  finally have lo: "(2::rat) powi (la - lb - 1) < x" using x by simp
  have "of_int a / of_int b < (2::rat) powi la / 2 powi (lb - 1)"
    by (rule frac_less) (use ra rb a b in simp_all)
  also have "\<dots> = 2 powi (la - (lb - 1))"
    by (subst power_int_diff) simp_all
  also have "la - (lb - 1) = la - lb + 1" by simp
  finally have hi: "x < (2::rat) powi (la - lb + 1)" using x by simp
  have e: "ilog2 x = (if x < 2 powi (la - lb) then la - lb - 1 else la - lb)"
    unfolding ilog2_def q la_def lb_def by (simp add: Let_def)
  show "2 powi (ilog2 x) \<le> x" using lo e by (auto simp: not_less)
  show "x < 2 powi (ilog2 x + 1)" using hi e by auto
qed

lemma fl_error: "\<bar>fl x - x\<bar> \<le> \<bar>x\<bar> / 2 ^ 53"
proof (cases "x = 0")
  case True
  then show ?thesis by (simp add: fl_def)
next
  case False
  define e where "e = ilog2 \<bar>x\<bar>"
  define P :: rat where "P = 2 powi (e - 52)"
  have P: "0 < P" unfolding P_def by simp
  have le: "2 powi e \<le> \<bar>x\<bar>" unfolding e_def using ilog2_bounds(1)[of "\<bar>x\<bar>"] False by simp
  have flx: "fl x = of_int (round_even (x / P)) * P"
    using False unfolding fl_def Let_def P_def e_def by simp
  have "fl x - x = (of_int (round_even (x / P)) - x / P) * P"
    using P by (simp add: flx algebra_simps)
  then have "\<bar>fl x - x\<bar> = \<bar>of_int (round_even (x / P)) - x / P\<bar> * P"
    using P by (simp add: abs_mult)
  also have "\<dots> \<le> 1 / 2 * P"
    using round_even_error[of "x / P"] P by (intro mult_right_mono) simp_all
  also have "1 / 2 * P = 2 powi e / 2 ^ 53"
    unfolding P_def by (simp add: power_int_diff)
  also have "\<dots> \<le> \<bar>x\<bar> / 2 ^ 53"
    using le by (simp add: divide_right_mono)
  finally show ?thesis .
qed

lemma ilog2_unique:
  assumes "0 < x" "2 powi e \<le> x" "x < 2 powi (e + 1)"
  shows "ilog2 x = e"
proof (rule ccontr)
  assume ne: "ilog2 x \<noteq> e"
  define i where "i = ilog2 x"
  have b: "2 powi i \<le> x" "x < 2 powi (i + 1)"
    using ilog2_bounds[OF assms(1)] unfolding i_def by auto
  consider "i + 1 \<le> e" | "e + 1 \<le> i" using ne unfolding i_def by linarith
  then show False
  proof cases
    case 1
    then have "(2::rat) powi (i + 1) \<le> 2 powi e" by (intro power_int_increasing) simp_all
    then show False using b assms by linarith
  next
    case 2
    then have "(2::rat) powi (e + 1) \<le> 2 powi i" by (intro power_int_increasing) simp_all
    then show False using b assms by linarith
  qed
qed

lemma round_even_unique:
  assumes "\<bar>y - of_int m\<bar> < 1 / 2 \<or> (\<bar>y - of_int m\<bar> = 1 / 2 \<and> even m)"
  shows "round_even y = m"
proof -
  define f where "f = \<lfloor>y\<rfloor>"
  define d where "d = y - of_int f"
  have d: "0 \<le> d" "d < 1" unfolding d_def f_def by linarith+
  have y: "y = of_int f + d" unfolding d_def by simp
  have r: "round_even y = (if d < 1 / 2 then f else if 1 / 2 < d then f + 1
                           else if even f then f else f + 1)"
    unfolding round_even_def Let_def f_def d_def ..
  have m: "m = f \<or> m = f + 1"
  proof -
    have "\<bar>of_int f + d - of_int m\<bar> \<le> 1 / 2" using assms y by auto
    then have "(of_int f :: rat) - of_int m < 1" "(-2 :: rat) < of_int f - of_int m"
      using d by linarith+
    then have "(of_int (f - m) :: rat) < of_int 1" "(of_int (-2) :: rat) < of_int (f - m)"
      by simp_all
    then have "f - m < 1" "-2 < f - m"
      unfolding of_int_less_iff by simp_all
    then show ?thesis by linarith
  qed
  show ?thesis
  proof (cases "d < 1 / 2")
    case True
    then have "m \<noteq> f + 1" using assms y by (auto simp: abs_if split: if_splits)
    then show ?thesis using m r True by simp
  next
    case False
    show ?thesis
    proof (cases "1 / 2 < d")
      case True
      then have "m \<noteq> f" using assms y by (auto simp: abs_if split: if_splits)
      then show ?thesis using m r True False by simp
    next
      case F2: False
      then have dh: "d = 1 / 2" using False by simp
      then have ev: "even m" using assms y m by (auto simp: abs_if split: if_splits)
      show ?thesis using m r dh ev by auto
    qed
  qed
qed

lemma fl_eqI:
  assumes "2 ^ 52 \<le> \<bar>x\<bar> / 2 powi q" "\<bar>x\<bar> / 2 powi q < 2 ^ 53"
    and "\<bar>x / 2 powi q - of_int m\<bar> < 1 / 2
         \<or> (\<bar>x / 2 powi q - of_int m\<bar> = 1 / 2 \<and> even m)"
  shows "fl x = of_int m * 2 powi q"
proof -
  have P: "(0::rat) < 2 powi q" by simp
  have x: "x \<noteq> 0" using assms(1) by auto
  have "2 powi (q + 52) \<le> \<bar>x\<bar>"
    using assms(1) P by (simp add: power_int_add pos_le_divide_eq mult.commute)
  moreover have "\<bar>x\<bar> < 2 powi (q + 52 + 1)"
    using assms(2) P by (simp add: power_int_add pos_divide_less_eq mult.commute)
  ultimately have "ilog2 \<bar>x\<bar> = q + 52" using x by (intro ilog2_unique) simp_all
  then show ?thesis using x assms(3) by (simp add: fl_def Let_def round_even_unique)
qed

lemma fl_eqI':
  assumes "r = of_int m * 2 powi q"
    and "2 ^ 52 \<le> \<bar>x\<bar> / 2 powi q" "\<bar>x\<bar> / 2 powi q < 2 ^ 53"
    and "\<bar>x / 2 powi q - of_int m\<bar> < 1 / 2
         \<or> (\<bar>x / 2 powi q - of_int m\<bar> = 1 / 2 \<and> even m)"
  shows "fl x = r"
  using fl_eqI[OF assms(2-4)] assms(1) by simp

lemma fsum_snoc: "fsum (ms @ [m]) = fadd (fsum ms) m"
  by (simp add: fsum_def)

lemma fsum_error:
  assumes "\<forall>m\<in>set ms. 0 \<le> m"
  shows "\<bar>fsum ms - sum_list ms\<bar> \<le> ((1 + 1 / 2 ^ 53) ^ length ms - 1) * sum_list ms"
  using assms
proof (induction ms rule: rev_induct)
  case Nil
  then show ?case by (simp add: fsum_def)
next
  case (snoc x ms)
  define u :: rat where "u = 1 / 2 ^ 53"
  define S where "S = sum_list ms"
  define E where "E = \<bar>fsum ms - S\<bar>"
  define n where "n = length ms"
  have u: "0 < u" unfolding u_def by simp
  have x: "0 \<le> x" and S: "0 \<le> S" using snoc.prems unfolding S_def by (auto intro: sum_list_nonneg)
  have IH: "E \<le> ((1 + u) ^ n - 1) * S"
    using snoc unfolding E_def S_def u_def n_def by simp
  have pw: "1 \<le> (1 + u) ^ n" using u by (simp add: one_le_power)
  have "E \<le> ((1 + u) ^ n - 1) * (S + x)"
  proof -
    have "((1 + u) ^ n - 1) * S \<le> ((1 + u) ^ n - 1) * (S + x)"
      using pw x by (intro mult_left_mono) simp_all
    then show ?thesis using IH by simp
  qed
  note E = this
  have "\<bar>fsum (ms @ [x]) - (S + x)\<bar> \<le> \<bar>fl (fsum ms + x) - (fsum ms + x)\<bar> + E"
    unfolding E_def fsum_snoc fadd_def by simp
  also have "\<dots> \<le> \<bar>fsum ms + x\<bar> * u + E"
    using fl_error[of "fsum ms + x"] unfolding u_def by simp
  also have "\<dots> \<le> (E + S + x) * u + E"
  proof -
    have "\<bar>fsum ms + x\<bar> \<le> E + S + x" unfolding E_def using x S by simp
    then show ?thesis using u by (simp add: mult_right_mono)
  qed
  also have "\<dots> = (1 + u) * E + u * (S + x)" by (simp add: algebra_simps)
  also have "\<dots> \<le> (1 + u) * (((1 + u) ^ n - 1) * (S + x)) + u * (S + x)"
    using E u by (simp add: mult_left_mono)
  also have "\<dots> = ((1 + u) ^ Suc n - 1) * (S + x)" by (simp add: algebra_simps)
  finally show ?case unfolding S_def n_def u_def by simp
qed

lemma share_rounding:
  fixes c t :: nat
  assumes c: "0 < c" "c \<le> t" and t: "t < 2 ^ 32"
  defines "p \<equiv> toFixed 1 (fmul (fdiv (of_nat c) (of_nat t)) 100)"
  shows "\<exists>n::int. p = of_int n / 10" and "\<bar>p - 100 * of_nat c / of_nat t\<bar> \<le> 1 / 20"
proof -
  define u :: rat where "u = 1 / 2 ^ 53"
  define r :: rat where "r = of_nat c / of_nat t"
  define a where "a = fl r"
  define x where "x = fl (a * 100)"
  define n where "n = \<lfloor>x * 10 + 1 / 2\<rfloor>"
  have tpos: "0 < t" using c by simp
  have r: "0 < r" "r \<le> 1" unfolding r_def using c tpos by simp_all
  have rlow: "1 / 2 ^ 32 < r"
  proof -
    have "(of_nat t :: rat) < 2 ^ 32" using t by (metis of_nat_less_iff of_nat_numeral of_nat_power)
    moreover have "(1 :: rat) \<le> of_nat c" using c by simp
    ultimately show ?thesis unfolding r_def using tpos
      by (simp add: field_simps) 
  qed
  have a: "\<bar>a - r\<bar> \<le> r * u" using fl_error[of r] r unfolding a_def u_def by simp
  have x1: "\<bar>x - a * 100\<bar> \<le> \<bar>a\<bar> * 100 * u"
    using fl_error[of "a * 100"] unfolding x_def u_def by (simp add: abs_mult)
  have u: "0 < u" "u \<le> 1 / 2 ^ 53" unfolding u_def by simp_all
  have abs_a: "\<bar>a\<bar> \<le> r * (1 + u)" using a r by (simp add: algebra_simps abs_le_iff) 
  have xq: "\<bar>x - 100 * r\<bar> \<le> 300 * u * r"
  proof -
    have "x - 100 * r = (x - a * 100) + 100 * (a - r)" by simp
    then have "\<bar>x - 100 * r\<bar> \<le> \<bar>x - a * 100\<bar> + \<bar>100 * (a - r)\<bar>"
      by (simp only: abs_triangle_ineq)
    moreover have "\<bar>100 * (a - r)\<bar> = 100 * \<bar>a - r\<bar>"
      unfolding abs_mult by simp
    ultimately have "\<bar>x - 100 * r\<bar> \<le> \<bar>x - a * 100\<bar> + 100 * \<bar>a - r\<bar>"
      by (simp only:)
    also have "\<dots> \<le> r * (1 + u) * 100 * u + 100 * (r * u)"
    proof -
      have "\<bar>a\<bar> * 100 * u \<le> r * (1 + u) * 100 * u"
        using abs_a u by (intro mult_right_mono) simp_all
      with x1 have "\<bar>x - a * 100\<bar> \<le> r * (1 + u) * 100 * u" by (rule order_trans)
      moreover have "100 * \<bar>a - r\<bar> \<le> 100 * (r * u)" using a by simp
      ultimately show ?thesis by (rule add_mono)
    qed
    also have "\<dots> = 100 * u * r * (2 + u)" by (simp add: algebra_simps)
    also have "\<dots> \<le> 100 * u * r * 3"
      using u r by (intro mult_left_mono) simp_all
    finally show ?thesis by simp
  qed
  define eps :: rat where "eps = 300 / 2 ^ 53"
  have ur: "300 * u * r \<le> eps"
  proof -
    have "300 * u * r \<le> 300 * u * 1" using u r by (intro mult_left_mono) simp_all
    then show ?thesis unfolding u_def eps_def by simp
  qed
  have xq': "\<bar>x - 100 * r\<bar> \<le> eps" using xq ur by (rule order_trans)
  have eps: "eps < 100 * (1 / 2 ^ 32)" "eps < 1" unfolding eps_def by simp_all
  have r100: "100 * (1 / 2 ^ 32) < 100 * r" using rlow by (simp only: mult_less_cancel_left_pos)
  have xpos: "0 < x" using xq' eps r100 by linarith
  have xle: "x < 10 ^ 21"
  proof -
    have "x < 101" using xq' eps r by linarith
    then show ?thesis by simp
  qed
  have p: "p = of_int n / 10"
    unfolding p_def fmul_def fdiv_def toFixed_def n_def
    using xpos xle unfolding x_def a_def r_def by simp
  show "\<exists>n::int. p = of_int n / 10" using p by blast
  have nx: "\<bar>x - of_int n / 10\<bar> \<le> 1 / 20"
  proof -
    have "of_int n \<le> x * 10 + 1 / 2" "x * 10 + 1 / 2 < of_int n + 1"
      unfolding n_def by linarith+
    then show ?thesis by linarith
  qed
  define D :: int where "D = 2000 * int c - 2 * n * int t"
  have Dq: "of_int n / 10 - 100 * r = - of_int D / (20 * of_nat t)"
    unfolding D_def r_def using tpos by (simp add: field_simps)
  have "\<bar>D\<bar> \<le> int t"
  proof (rule ccontr)
    assume "\<not> \<bar>D\<bar> \<le> int t"
    then have "int t + 1 \<le> \<bar>D\<bar>" by simp
    then have "(of_int (int t + 1) :: rat) \<le> of_int \<bar>D\<bar>" by (simp only: of_int_le_iff)
    then have big: "(of_nat t + 1 :: rat) \<le> \<bar>of_int D\<bar>" by simp
    have "\<bar>of_int n / 10 - 100 * r\<bar> \<le> eps + 1 / 20" using nx xq' by linarith
    then have "\<bar>of_int n / 10 - 100 * r\<bar> \<le> 300 / 2 ^ 53 + 1 / 20" unfolding eps_def .
    then have "\<bar>of_int D :: rat\<bar> / (20 * of_nat t) \<le> 300 / 2 ^ 53 + 1 / 20"
      unfolding Dq using tpos by simp
    then have "\<bar>of_int D :: rat\<bar> \<le> (300 / 2 ^ 53 + 1 / 20) * (20 * of_nat t)"
      using tpos by (simp add: pos_divide_le_eq)
    then have "(of_nat t + 1 :: rat) \<le> (300 / 2 ^ 53 + 1 / 20) * (20 * of_nat t)"
      using big by linarith
    then have "(2 ^ 53 :: rat) \<le> 6000 * of_nat t" by (simp add: algebra_simps)
    moreover have "(of_nat t :: rat) < 2 ^ 32"
      using t by (metis of_nat_less_iff of_nat_numeral of_nat_power)
    ultimately show False by simp
  qed
  then have "(of_int \<bar>D\<bar> :: rat) \<le> of_int (int t)" by (simp only: of_int_le_iff)
  then have "\<bar>of_int D :: rat\<bar> \<le> of_nat t" by simp
  then have "\<bar>of_int D :: rat\<bar> / (20 * of_nat t) \<le> 1 / 20"
    using tpos by (simp add: pos_divide_le_eq)
  then have "\<bar>of_int n / 10 - 100 * r\<bar> \<le> 1 / 20"
    unfolding Dq using tpos by simp
  then show "\<bar>p - 100 * of_nat c / of_nat t\<bar> \<le> 1 / 20"
    unfolding p r_def by simp
qed


section \<open>Own properties and the grouping reductions\<close>

lemma first_seen_snoc:
  "first_seen (xs @ [x]) = (if x \<in> set (first_seen xs) then first_seen xs else first_seen xs @ [x])"
  by (simp add: first_seen_def)

lemma set_first_seen [simp]: "set (first_seen xs) = set xs"
  by (induction xs rule: rev_induct) (auto simp: first_seen_snoc first_seen_def)

lemma distinct_first_seen [simp]: "distinct (first_seen xs)"
  by (induction xs rule: rev_induct) (auto simp: first_seen_snoc first_seen_def)

lemma first_seen_Nil [simp]: "first_seen [] = []"
  by (simp add: first_seen_def)

lemma length_first_seen: "length (first_seen xs) = length (remdups xs)"
proof -
  have "length (first_seen xs) = Finite_Set.card (set xs)"
    using distinct_card[of "first_seen xs"] by simp
  then show ?thesis by (simp add: length_remdups_card_conv)
qed

lemma js_set_absent: "map_of acc k = None \<Longrightarrow> js_set acc k v = acc @ [(k, v)]"
  by (induction acc) (auto split: if_splits)

lemma js_update_absent: "map_of acc k = None \<Longrightarrow> js_update acc k f = acc"
  by (induction acc) (auto split: if_splits)

lemma js_update_last:
  "map_of acc k = None \<Longrightarrow> js_update (acc @ [(k, v)]) k f = acc @ [(k, f v)]"
  by (induction acc) (auto split: if_splits)

lemma js_update_twice: "js_update (js_update acc k f) k g = js_update acc k (\<lambda>v. g (f v))"
  by (induction acc) auto

lemma js_update_map:
  "distinct ks \<Longrightarrow>
   js_update (map (\<lambda>k. (k, g k)) ks) k f = map (\<lambda>j. (j, if j = k then f (g j) else g j)) ks"
  by (induction ks) auto

lemma js_update_as_set: "map_of acc k = Some v \<Longrightarrow> js_update acc k f = js_set acc k (f v)"
  by (induction acc) (auto split: if_splits)

lemma map_fst_js_set:
  "map fst (js_set acc k v) = (if k \<in> set (map fst acc) then map fst acc else map fst acc @ [k])"
  by (induction acc) auto

lemma set_js_set: "set (js_set acc k v) \<subseteq> insert (k, v) (set acc)"
  by (induction acc) auto

lemma map_of_keyed: "map_of (map (\<lambda>k. (k, g k)) ks) k = (if k \<in> set ks then Some (g k) else None)"
  by (induction ks) auto

lemma records_of_snoc:
  "records_of key k (xs @ [r]) = (if key r = k then records_of key k xs @ [r] else records_of key k xs)"
  by (simp add: records_of_def)

lemma records_of_absent: "k \<notin> key ` set xs \<Longrightarrow> records_of key k xs = []"
  by (auto simp: records_of_def filter_empty_conv)

lemma records_of_present: "k \<in> key ` set xs \<Longrightarrow> records_of key k xs \<noteq> []"
  by (auto simp: records_of_def filter_empty_conv)

lemma length_records_of_le: "length (records_of key k data) \<le> length data"
  by (simp add: records_of_def)

lemma grouped_step:
  "group_step ok key init upd (grouped ok key init upd data) r
   = grouped ok key init upd (data @ [r])"
proof -
  define ks where "ks = first_seen (filter ok (map key data))"
  define g where "g = (\<lambda>k. foldl (\<lambda>v r. upd r v) init (records_of key k data))"
  define g' where "g' = (\<lambda>k. foldl (\<lambda>v r. upd r v) init (records_of key k (data @ [r])))"
  have G: "grouped ok key init upd data = map (\<lambda>k. (k, g k)) ks"
    unfolding grouped_def ks_def g_def ..
  have ks: "distinct ks" "set ks = {k \<in> key ` set data. ok k}"
    unfolding ks_def by auto
  have g': "g' k = (if key r = k then upd r (g k) else g k)" for k
    unfolding g'_def g_def by (simp add: records_of_snoc)
  have R: "grouped ok key init upd (data @ [r])
           = map (\<lambda>k. (k, g' k))
               (if ok (key r) \<and> key r \<notin> set ks then ks @ [key r] else ks)"
    unfolding grouped_def g'_def ks_def by (simp add: first_seen_snoc)
  have "group_step ok key init upd (map (\<lambda>k. (k, g k)) ks) r
        = map (\<lambda>k. (k, g' k)) (if ok (key r) \<and> key r \<notin> set ks then ks @ [key r] else ks)"
  proof (cases "ok (key r)")
    case False
    then have "\<forall>k\<in>set ks. k \<noteq> key r" using ks by auto
    then have "map (\<lambda>k. (k, g' k)) ks = map (\<lambda>k. (k, g k)) ks"
      by (intro map_cong) (auto simp: g')
    then show ?thesis using False ks by (simp add: group_step_def map_of_keyed)
  next
    case ok: True
    show ?thesis
    proof (cases "key r \<in> set ks")
      case True
      have "group_step ok key init upd (map (\<lambda>k. (k, g k)) ks) r
            = js_update (map (\<lambda>k. (k, g k)) ks) (key r) (upd r)"
        using ok True by (simp add: group_step_def map_of_keyed)
      also have "\<dots> = map (\<lambda>j. (j, if j = key r then upd r (g j) else g j)) ks"
        using ks(1) by (rule js_update_map)
      also have "\<dots> = map (\<lambda>k. (k, g' k)) ks"
        by (intro map_cong) (auto simp: g')
      finally show ?thesis using True by simp
    next
      case False
      then have absent: "key r \<notin> key ` set data" using ks ok by auto
      have "group_step ok key init upd (map (\<lambda>k. (k, g k)) ks) r
            = map (\<lambda>k. (k, g k)) ks @ [(key r, upd r init)]"
        using ok False by (simp add: group_step_def map_of_keyed)
      moreover have "map (\<lambda>k. (k, g' k)) ks = map (\<lambda>k. (k, g k)) ks"
        using False by (intro map_cong) (auto simp: g')
      moreover have "g' (key r) = upd r init"
        using absent by (simp add: g' g_def records_of_absent)
      ultimately show ?thesis using ok False by simp
    qed
  qed
  then show ?thesis using G R by simp
qed

lemma foldl_group_step:
  "foldl (group_step ok key init upd) [] data = grouped ok key init upd data"
proof (induction data rule: rev_induct)
  case Nil
  show ?case by (simp add: grouped_def)
next
  case (snoc r data)
  then show ?case by (simp add: grouped_step)
qed

lemma coffee_step_group:
  "coffee_step acc r =
   group_step plain_key coffee_name \<lparr>c_count = 0, c_revenue = 0, c_avgPrice = 0\<rparr> coffee_add acc r"
proof (cases "map_of acc (coffee_name r)")
  case None
  then show ?thesis
    by (simp add: coffee_step_def group_step_def js_get_def plain_key_def Let_def
        js_set_absent js_update_absent js_update_last coffee_add_def)
next
  case (Some s)
  have "(\<lambda>v. v\<lparr>c_count := Suc (c_count v), c_revenue := fadd (c_revenue v) (money r),
                c_avgPrice := fdiv (fadd (c_revenue v) (money r)) (1 + of_nat (c_count v))\<rparr>)
        = coffee_add r"
    by (rule ext) (simp add: coffee_add_def)
  then show ?thesis using Some
    by (simp add: coffee_step_def group_step_def js_get_def Let_def js_update_twice)
qed

lemma payment_step_group:
  "payment_step acc r =
   group_step plain_key cash_type \<lparr>p_count = 0, p_revenue = 0\<rparr> payment_add acc r"
proof (cases "map_of acc (cash_type r)")
  case None
  then show ?thesis
    by (simp add: payment_step_def group_step_def js_get_def plain_key_def Let_def
        js_set_absent js_update_absent js_update_last payment_add_def)
next
  case (Some s)
  have "(\<lambda>v. v\<lparr>p_count := Suc (p_count v), p_revenue := fadd (p_revenue v) (money r)\<rparr>)
        = payment_add r"
    by (rule ext) (simp add: payment_add_def)
  then show ?thesis using Some
    by (simp add: payment_step_def group_step_def js_get_def Let_def js_update_twice)
qed

lemma hourly_step_group:
  "hourly_step acc r =
   group_step (\<lambda>h. True) hour \<lparr>h_orders = 0, h_revenue = 0\<rparr> hourly_add acc r"
proof (cases "map_of acc (hour r)")
  case None
  then show ?thesis
    by (simp add: hourly_step_def group_step_def Let_def
        js_set_absent js_update_absent js_update_last hourly_add_def)
next
  case (Some s)
  have "(\<lambda>v. v\<lparr>h_orders := Suc (h_orders v), h_revenue := fadd (h_revenue v) (money r)\<rparr>)
        = hourly_add r"
    by (rule ext) (simp add: hourly_add_def)
  then show ?thesis using Some
    by (simp add: hourly_step_def group_step_def Let_def js_update_twice)
qed

lemma frequency_step_group:
  "frequency_step acc f = group_step (\<lambda>b. True) bucket_of 0 (\<lambda>f n. n + 1) acc f"
  by (cases "map_of acc (bucket_of f)")
     (simp_all add: frequency_step_def group_step_def Let_def js_set_absent js_update_as_set)

lemma coffee_add_fold:
  "foldl (\<lambda>v r. coffee_add r v) \<lparr>c_count = 0, c_revenue = 0, c_avgPrice = 0\<rparr> rs =
   \<lparr>c_count = length rs, c_revenue = fsum (map money rs),
    c_avgPrice = (if rs = [] then 0 else fdiv (fsum (map money rs)) (of_nat (length rs)))\<rparr>"
  by (induction rs rule: rev_induct) (simp_all add: fsum_def coffee_add_def)

lemma payment_add_fold:
  "foldl (\<lambda>v r. payment_add r v) \<lparr>p_count = 0, p_revenue = 0\<rparr> rs =
   \<lparr>p_count = length rs, p_revenue = fsum (map money rs)\<rparr>"
  by (induction rs rule: rev_induct) (simp_all add: fsum_def payment_add_def)

lemma hourly_add_fold:
  "foldl (\<lambda>v r. hourly_add r v) \<lparr>h_orders = 0, h_revenue = 0\<rparr> rs =
   \<lparr>h_orders = length rs, h_revenue = fsum (map money rs)\<rparr>"
  by (induction rs rule: rev_induct) (simp_all add: fsum_def hourly_add_def)

lemma count_fold: "foldl (\<lambda>n f. n + 1) (0::nat) fs = length fs"
  by (induction fs rule: rev_induct) simp_all

lemma customer_add_fold:
  assumes "\<forall>r\<in>set rs. card r = k"
  shows "foldl (\<lambda>v r. customer_add r v) (Num 0) rs
         = (if rs = [] then Num 0 else if plain_key k then Num (length rs) else Str)"
  using assms by (induction rs rule: rev_induct) (auto simp: customer_add_def)

lemma customer_records_fold:
  "foldl (\<lambda>v r. customer_add r v) (Num 0) (records_of card k data)
   = (if records_of card k data = [] then Num 0
      else if plain_key k then Num (length (records_of card k data)) else Str)"
  using customer_add_fold[of "records_of card k data" k] by (simp add: records_of_def)

lemma coffeeStats_closed:
  "coffeeStats data =
   map (\<lambda>k. (k, \<lparr>c_count = length (records_of coffee_name k data),
                  c_revenue = fsum (map money (records_of coffee_name k data)),
                  c_avgPrice = fdiv (fsum (map money (records_of coffee_name k data)))
                                    (of_nat (length (records_of coffee_name k data)))\<rparr>))
       (first_seen (filter plain_key (map coffee_name data)))"
proof -
  have step: "coffee_step = group_step plain_key coffee_name \<lparr>c_count = 0, c_revenue = 0, c_avgPrice = 0\<rparr> coffee_add"
    by (intro ext) (rule coffee_step_group)
  have "coffeeStats data = grouped plain_key coffee_name \<lparr>c_count = 0, c_revenue = 0, c_avgPrice = 0\<rparr> coffee_add data"
    unfolding coffeeStats_def step by (rule foldl_group_step)
  also have "\<dots> = map (\<lambda>k. (k, \<lparr>c_count = length (records_of coffee_name k data),
                  c_revenue = fsum (map money (records_of coffee_name k data)),
                  c_avgPrice = fdiv (fsum (map money (records_of coffee_name k data)))
                                    (of_nat (length (records_of coffee_name k data)))\<rparr>))
       (first_seen (filter plain_key (map coffee_name data)))"
    unfolding grouped_def coffee_add_fold
    by (intro map_cong refl) (auto simp: records_of_present)
  finally show ?thesis .
qed

lemma paymentStats_closed:
  "paymentStats data =
   map (\<lambda>k. (k, \<lparr>p_count = length (records_of cash_type k data),
                  p_revenue = fsum (map money (records_of cash_type k data))\<rparr>))
       (first_seen (filter plain_key (map cash_type data)))"
proof -
  have step: "payment_step = group_step plain_key cash_type \<lparr>p_count = 0, p_revenue = 0\<rparr> payment_add"
    by (intro ext) (rule payment_step_group)
  show ?thesis
    unfolding paymentStats_def step foldl_group_step grouped_def payment_add_fold ..
qed

lemma hourlyStats_closed:
  "hourlyStats data =
   map (\<lambda>k. (k, \<lparr>h_orders = length (records_of hour k data),
                  h_revenue = fsum (map money (records_of hour k data))\<rparr>))
       (first_seen (map hour data))"
proof -
  have step: "hourly_step = group_step (\<lambda>h. True) hour \<lparr>h_orders = 0, h_revenue = 0\<rparr> hourly_add"
    by (intro ext) (rule hourly_step_group)
  show ?thesis
    unfolding hourlyStats_def step foldl_group_step grouped_def hourly_add_fold by simp
qed

lemma customerFrequency_grouped:
  "customerFrequency data
   = grouped (\<lambda>k. k \<noteq> ''__proto__'') card (Num 0) customer_add data"
proof (induction data rule: rev_induct)
  case Nil
  show ?case by (simp add: customerFrequency_def grouped_def)
next
  case (snoc r data)
  define G where "G = grouped (\<lambda>k. k \<noteq> ''__proto__'') card (Num 0) customer_add data"
  define k where "k = card r"
  have look: "map_of G j =
      (if j \<in> card ` set data \<and> j \<noteq> ''__proto__''
       then Some (if plain_key j then Num (length (records_of card j data)) else Str) else None)" for j
    unfolding G_def grouped_def
    using records_of_present[of j card data]
    by (auto simp: map_of_keyed customer_records_fold)
  have "customer_step G r = group_step (\<lambda>k. k \<noteq> ''__proto__'') card (Num 0) customer_add G r"
  proof (cases "map_of G k")
    case None
    then show ?thesis
      unfolding customer_step_def group_step_def k_def[symmetric] Let_def js_get_def
      by (auto simp: js_set_absent customer_add_def plain_key_def k_def)
  next
    case (Some v)
    then have kk: "k \<noteq> ''__proto__''" "v = (if plain_key k then Num (length (records_of card k data)) else Str)"
      using look[of k] by (auto split: if_splits)
    show ?thesis
      unfolding customer_step_def group_step_def k_def[symmetric] Let_def js_get_def
      using Some kk by (auto simp: js_update_as_set customer_add_def k_def)
  qed
  then show ?case
    using snoc unfolding G_def customerFrequency_def by (simp add: grouped_step)
qed

lemma customerFrequency_closed:
  "customerFrequency data =
   map (\<lambda>k. (k, if plain_key k then Num (length (records_of card k data)) else Str))
       (first_seen (filter (\<lambda>k. k \<noteq> ''__proto__'') (map card data)))"
  unfolding customerFrequency_grouped grouped_def
  by (intro map_cong refl) (auto simp: customer_records_fold records_of_present)


section \<open>Enumeration order and sums over the groups\<close>

lemma insort_key_map:
  "insort_key f (h x) (map h xs) = map h (insort_key (\<lambda>x. f (h x)) x xs)"
  by (induction xs) auto

lemma sort_key_map: "sort_key f (map h xs) = map h (sort_key (\<lambda>x. f (h x)) xs)"
  by (induction xs) (auto simp: insort_key_map)

lemma Object_entries_keyed:
  "Object_entries (map (\<lambda>k. (k, g k)) ks) = map (\<lambda>k. (k, g k)) (own_key_order ks)"
  by (simp add: Object_entries_def own_key_order_def filter_map comp_def sort_key_map)

lemma Object_values_keyed: "Object_values (map (\<lambda>k. (k, g k)) ks) = map g (own_key_order ks)"
  by (simp add: Object_values_def Object_entries_keyed comp_def)

lemma map_fst_Object_entries: "map fst (Object_entries acc) = own_key_order (map fst acc)"
  by (simp add: Object_entries_def own_key_order_def filter_map comp_def sort_key_map)

lemma set_Object_entries [simp]: "set (Object_entries acc) = set acc"
  by (auto simp: Object_entries_def)

lemma length_Object_entries [simp]: "length (Object_entries acc) = length acc"
  by (simp add: Object_entries_def sum_length_filter_compl)

lemma set_own_key_order [simp]: "set (own_key_order ks) = set ks"
  by (auto simp: own_key_order_def)

lemma distinct_own_key_order [simp]: "distinct ks \<Longrightarrow> distinct (own_key_order ks)"
  by (auto simp: own_key_order_def)

lemma length_own_key_order [simp]: "length (own_key_order ks) = length ks"
  by (simp add: own_key_order_def sum_length_filter_compl)

lemma own_key_order_plain: "\<forall>k\<in>set ks. \<not> is_array_index k \<Longrightarrow> own_key_order ks = ks"
  by (simp add: own_key_order_def filter_empty_conv[THEN iffD2] filter_id_conv[THEN iffD2])

lemma bucket_not_index: "\<not> is_array_index (bucket_of f)"
  by (cases f) (simp_all add: bucket_of_def is_array_index_def is_digit_def)

lemma sum_list_insort_key:
  "sum_list (map f (insort_key g x xs)) = (f x :: 'a :: comm_monoid_add) + sum_list (map f xs)"
  by (induction xs) (auto simp: add_ac)

lemma sum_list_sort_key:
  "sum_list (map f (sort_key g xs)) = (sum_list (map f xs) :: 'a :: comm_monoid_add)"
  by (induction xs) (auto simp: sum_list_insort_key)

lemma sum_list_filter_split:
  "sum_list (map f (filter P xs)) + sum_list (map f (filter (\<lambda>x. \<not> P x) xs))
   = (sum_list (map f xs) :: 'a :: comm_monoid_add)"
  by (induction xs) (auto simp: add_ac)

lemma sum_list_own_key_order:
  "sum_list (map f (own_key_order ks)) = (sum_list (map f ks) :: 'a :: comm_monoid_add)"
  by (simp add: own_key_order_def sum_list_sort_key sum_list_filter_split)

lemma sum_list_Object_entries:
  "sum_list (map f (Object_entries acc)) = (sum_list (map f acc) :: 'a :: comm_monoid_add)"
  by (simp add: Object_entries_def sum_list_sort_key sum_list_filter_split)

lemma sum_list_single:
  "distinct ks \<Longrightarrow>
   sum_list (map (\<lambda>j. if k = j then c else 0) ks) = (if k \<in> set ks then c else (0 :: 'a :: comm_monoid_add))"
  by (induction ks) auto

lemma sum_by_key:
  assumes "distinct ks"
  shows "(\<Sum>k\<leftarrow>ks. sum_list (map f (records_of key k xs)))
         = (sum_list (map f (filter (\<lambda>r. key r \<in> set ks) xs)) :: 'a :: comm_monoid_add)"
proof (induction xs)
  case Nil
  show ?case by (simp add: records_of_def)
next
  case (Cons x xs)
  have "(\<Sum>k\<leftarrow>ks. sum_list (map f (records_of key k (x # xs))))
        = (\<Sum>k\<leftarrow>ks. (if key x = k then f x else 0) + sum_list (map f (records_of key k xs)))"
    by (intro arg_cong[where f = sum_list] map_cong refl) (simp add: records_of_def)
  also have "\<dots> = (\<Sum>k\<leftarrow>ks. if key x = k then f x else 0) + (\<Sum>k\<leftarrow>ks. sum_list (map f (records_of key k xs)))"
    by (rule sum_list_addf)
  finally show ?case using assms Cons by (simp add: sum_list_single)
qed

lemma length_by_key:
  assumes "distinct ks"
  shows "(\<Sum>k\<leftarrow>ks. length (records_of key k xs)) = length (filter (\<lambda>r. key r \<in> set ks) xs)"
  using sum_by_key[OF assms, of "\<lambda>_. 1::nat" key xs] by (simp add: sum_list_triv)

lemma sum_list_filter_pos:
  "sum_list (map f (filter (\<lambda>x. 0 < f x) xs)) = (sum_list (map f xs) :: nat)"
  by (induction xs) auto

lemma sum_list_shares:
  "(\<Sum>p\<leftarrow>ps. 100 * of_nat (f p) / (of_nat t :: rat))
   = 100 * of_nat (sum_list (map f ps)) / of_nat t"
  by (induction ps) (simp_all add: add_divide_distrib distrib_left)


section \<open>The sequences of the result in closed form\<close>

lemma coffeeChartData_closed:
  "coffeeChartData data =
   map (\<lambda>k. \<lparr>name = k, count = length (records_of coffee_name k data),
              revenue = fsum (map money (records_of coffee_name k data)),
              avgPrice = parseFloat (toFixed 2
                (fdiv (fsum (map money (records_of coffee_name k data)))
                      (of_nat (length (records_of coffee_name k data)))))\<rparr>)
       (own_key_order (first_seen (filter plain_key (map coffee_name data))))"
  by (simp add: coffeeChartData_def coffeeStats_closed Object_entries_keyed)

lemma coffeeChartData_entry:
  assumes "p \<in> set (coffeeChartData data)"
  shows "name p \<in> coffee_name ` set data" "plain_key (name p)"
    and "count p = length (records_of coffee_name (name p) data)"
    and "revenue p = fsum (map money (records_of coffee_name (name p) data))"
    and "avgPrice p = parseFloat (toFixed 2
           (fdiv (fsum (map money (records_of coffee_name (name p) data)))
                 (of_nat (length (records_of coffee_name (name p) data)))))"
  using assms by (auto simp: coffeeChartData_closed)


lemma products_keys:
  "map name (coffeeChartData data)
   = own_key_order (first_seen (filter plain_key (map coffee_name data)))"
  by (simp add: coffeeChartData_closed comp_def)

lemma paymentChartData_closed:
  "paymentChartData data =
   map (\<lambda>k. \<lparr>pay_method = k, pay_count = length (records_of cash_type k data),
              pay_revenue = fsum (map money (records_of cash_type k data)),
              percentage = toFixed 1
                (fmul (fdiv (of_nat (length (records_of cash_type k data)))
                            (of_nat (totalOrders data))) 100)\<rparr>)
       (own_key_order (first_seen (filter plain_key (map cash_type data))))"
  by (simp add: paymentChartData_def paymentStats_closed Object_entries_keyed)

lemma paymentChartData_entry:
  assumes "p \<in> set (paymentChartData data)"
  shows "pay_method p \<in> cash_type ` set data" "plain_key (pay_method p)"
    and "pay_count p = length (records_of cash_type (pay_method p) data)"
    and "pay_revenue p = fsum (map money (records_of cash_type (pay_method p) data))"
    and "percentage p = toFixed 1
           (fmul (fdiv (of_nat (length (records_of cash_type (pay_method p) data)))
                       (of_nat (totalOrders data))) 100)"
  using assms by (auto simp: paymentChartData_closed)

lemma payments_keys:
  "map pay_method (paymentChartData data)
   = own_key_order (first_seen (filter plain_key (map cash_type data)))"
  by (simp add: paymentChartData_closed comp_def)

lemma hourly_lookup:
  "map_of (hourlyStats data) x =
   (if x \<in> hour ` set data
    then Some \<lparr>h_orders = length (records_of hour x data),
               h_revenue = fsum (map money (records_of hour x data))\<rparr>
    else None)"
  by (simp add: hourlyStats_closed map_of_keyed)

lemma hourlyChartData_closed:
  "hourlyChartData data =
   map (\<lambda>h. \<lparr>hour_text = hour_label h,
              orders = length (records_of hour (of_nat h) data),
              hour_revenue = fsum (map money (records_of hour (of_nat h) data))\<rparr>)
       (filter (\<lambda>h. 0 < length (records_of hour (of_nat h) data)) [0..<24])"
proof -
  have row: "\<lparr>hour_text = hour_label h,
              orders = (case map_of (hourlyStats data) (of_nat h) of
                          Some s \<Rightarrow> h_orders s | None \<Rightarrow> 0),
              hour_revenue = (case map_of (hourlyStats data) (of_nat h) of
                          Some s \<Rightarrow> h_revenue s | None \<Rightarrow> 0)\<rparr>
           = \<lparr>hour_text = hour_label h,
              orders = length (records_of hour (of_nat h) data),
              hour_revenue = fsum (map money (records_of hour (of_nat h) data))\<rparr>" for h
    by (simp add: hourly_lookup records_of_absent fsum_def)
  show ?thesis
    unfolding hourlyChartData_def row by (simp add: filter_map comp_def)
qed

lemma hour_labels:
  "map hour_label [0..<24] =
     [''0:00'', ''1:00'', ''2:00'', ''3:00'', ''4:00'', ''5:00'', ''6:00'', ''7:00'',
      ''8:00'', ''9:00'', ''10:00'', ''11:00'', ''12:00'', ''13:00'', ''14:00'', ''15:00'',
      ''16:00'', ''17:00'', ''18:00'', ''19:00'', ''20:00'', ''21:00'', ''22:00'', ''23:00'']"
  by code_simp

lemma distinct_hour_labels: "distinct (map hour_label [0..<24])"
  unfolding hour_labels by simp

lemma distinct_hours: "distinct (map (of_nat :: nat \<Rightarrow> rat) [0..<24])"
  by (simp add: distinct_map inj_on_def)

lemma frequencyDistribution_closed:
  "frequencyDistribution data =
   map (\<lambda>b. (b, length (records_of bucket_of b (Object_values (customerFrequency data)))))
       (first_seen (map bucket_of (Object_values (customerFrequency data))))"
proof -
  have step: "frequency_step = group_step (\<lambda>b. True) bucket_of 0 (\<lambda>f n. n + 1)"
    by (intro ext) (rule frequency_step_group)
  show ?thesis
    unfolding frequencyDistribution_def step foldl_group_step grouped_def count_fold by simp
qed

lemma customerFrequencyData_closed:
  "customerFrequencyData data =
   map (\<lambda>b. \<lparr>bucket = b,
              customers = length (records_of bucket_of b (Object_values (customerFrequency data)))\<rparr>)
       (first_seen (map bucket_of (Object_values (customerFrequency data))))"
proof -
  have "own_key_order (first_seen (map bucket_of (Object_values (customerFrequency data))))
        = first_seen (map bucket_of (Object_values (customerFrequency data)))"
    by (intro own_key_order_plain) (auto simp: bucket_not_index)
  then show ?thesis
    by (simp add: customerFrequencyData_def frequencyDistribution_closed Object_entries_keyed)
qed

lemma frequency_fold_invariant:
  assumes "distinct (map fst acc)" "\<forall>p\<in>set acc. 1 \<le> snd p"
  shows "distinct (map fst (foldl frequency_step acc fs))
         \<and> (\<forall>p\<in>set (foldl frequency_step acc fs). 1 \<le> snd p)"
  using assms
proof (induction fs arbitrary: acc)
  case Nil
  then show ?case by simp
next
  case (Cons f fs)
  have "distinct (map fst (frequency_step acc f))"
    using Cons.prems(1) by (simp add: frequency_step_def Let_def map_fst_js_set)
  moreover have "\<forall>p\<in>set (frequency_step acc f). 1 \<le> snd p"
    using Cons.prems(2) set_js_set[of acc] by (fastforce simp: frequency_step_def Let_def)
  ultimately show ?case using Cons.IH by simp
qed

lemma frequencyDistribution_invariant:
  "distinct (map fst (frequencyDistribution data))"
  "\<forall>p\<in>set (frequencyDistribution data). 1 \<le> snd p"
  using frequency_fold_invariant[of "[]"] by (simp_all add: frequencyDistribution_def)

lemma filter_plain_all: "\<forall>r\<in>set data. plain_key (key r) \<Longrightarrow> filter plain_key (map key data) = map key data"
  by (simp add: filter_id_conv)

lemma plain_filter_all:
  "\<forall>r\<in>set data. plain_key (key r) \<Longrightarrow>
   filter (\<lambda>r. key r \<in> set (first_seen (filter plain_key (map key data)))) data = data"
  by (auto simp: filter_id_conv)

lemma scenario_A_names: "map name (coffeeChartData scenario_A) = [''Latte'', ''Espresso'']"
  by (simp add: products_keys scenario_A_def mk_record_def plain_key_def
        Object_prototype_keys_def first_seen_def own_key_order_def is_array_index_def is_digit_def)

lemma scenario_A_contract: "input_contract scenario_A"
  by (simp add: input_contract_def scenario_A_def mk_record_def)


section \<open>Scenario A\<close>

text \<open>
  The model computes the result that the specification gives for its Scenario A; the
  average order value is the binary64 value nearest to \<open>8 / 3\<close>.
\<close>

lemma scenario_A_result:
  "analytics scenario_A =
   Inr (Some \<lparr>r_totalRevenue = 8, r_totalOrders = 3,
         r_avgOrderValue = 6004799503160661 / 2251799813685248,
         r_uniqueCustomers = 2,
         r_coffeeChartData =
           [\<lparr>name = ''Latte'', count = 2, revenue = 6, avgPrice = 3\<rparr>,
            \<lparr>name = ''Espresso'', count = 1, revenue = 2, avgPrice = 2\<rparr>],
         r_hourlyChartData =
           [\<lparr>hour_text = ''8:00'', orders = 2, hour_revenue = 6\<rparr>,
            \<lparr>hour_text = ''9:00'', orders = 1, hour_revenue = 2\<rparr>],
         r_paymentChartData =
           [\<lparr>pay_method = ''cash'', pay_count = 2, pay_revenue = 5, percentage = 667 / 10\<rparr>,
            \<lparr>pay_method = ''card'', pay_count = 1, pay_revenue = 3, percentage = 333 / 10\<rparr>],
         r_customerFrequencyData =
           [\<lparr>bucket = ''2-3 orders'', customers = 1\<rparr>,
            \<lparr>bucket = ''1 order'', customers = 1\<rparr>],
         r_priceVolumeData =
           [\<lparr>coffee = ''Latte'', price = 3, volume = 2\<rparr>,
            \<lparr>coffee = ''Espresso'', price = 2, volume = 1\<rparr>]\<rparr>)"
  by code_simp


section \<open>Empty input\<close>

text \<open>
  C1 (as amended). For the empty collection the engine throws nothing: it returns
  \<open>null\<close>, that is no result and no aggregates.
\<close>

theorem analytics_empty_returns_null: "analytics [] = Inr None"
  by (simp add: analytics_def)

text \<open>
  No error is thrown for the empty collection, in particular none named
  \<open>EmptyInputError\<close>.
\<close>

theorem analytics_empty_throws_nothing:
  "analytics [] \<noteq> Inl (Error ''EmptyInputError'') \<and> (\<forall>e. analytics [] \<noteq> Inl e)"
  by (simp add: analytics_def)


section \<open>Revenue conservation\<close>

lemma totalRevenue_fsum: "totalRevenue data = fsum (map money data)"
  by (simp add: totalRevenue_def fsum_def foldl_map)

lemma grouped_revenue_error:
  assumes ks: "distinct ks" and pos: "\<forall>r\<in>set data. 0 \<le> money r"
  shows "\<bar>(\<Sum>k\<leftarrow>ks. fsum (map money (records_of key k data)))
          - sum_list (map money (filter (\<lambda>r. key r \<in> set ks) data))\<bar>
         \<le> ((1 + 1 / 2 ^ 53) ^ length data - 1)
            * sum_list (map money (filter (\<lambda>r. key r \<in> set ks) data))"
proof -
  define c :: rat where "c = (1 + 1 / 2 ^ 53) ^ length data - 1"
  define M where "M = (\<lambda>k. map money (records_of key k data))"
  have nonneg: "\<forall>m\<in>set (M k). 0 \<le> m" for k
    using pos by (auto simp: M_def records_of_def)
  have each: "\<bar>fsum (M k) - sum_list (M k)\<bar> \<le> c * sum_list (M k)" for k
  proof -
    have "length (M k) \<le> length data" by (simp add: M_def records_of_def)
    then have "(1 + 1 / 2 ^ 53 :: rat) ^ length (M k) \<le> (1 + 1 / 2 ^ 53) ^ length data"
      by (intro power_increasing) simp_all
    moreover have "0 \<le> sum_list (M k)" using nonneg by (intro sum_list_nonneg) auto
    ultimately have "((1 + 1 / 2 ^ 53) ^ length (M k) - 1) * sum_list (M k) \<le> c * sum_list (M k)"
      unfolding c_def by (intro mult_right_mono) simp_all
    then show ?thesis using fsum_error[OF nonneg[of k]] by linarith
  qed
  have split: "(\<Sum>k\<leftarrow>ks. sum_list (M k)) = sum_list (map money (filter (\<lambda>r. key r \<in> set ks) data))"
    unfolding M_def using sum_by_key[OF ks, of money key data] by simp
  have "\<bar>(\<Sum>k\<leftarrow>ks. fsum (M k)) - (\<Sum>k\<leftarrow>ks. sum_list (M k))\<bar>
        = \<bar>\<Sum>k\<leftarrow>ks. fsum (M k) - sum_list (M k)\<bar>"
    by (simp add: sum_list_subtractf)
  also have "\<dots> \<le> (\<Sum>k\<leftarrow>ks. \<bar>fsum (M k) - sum_list (M k)\<bar>)"
    using sum_list_abs[of "map (\<lambda>k. fsum (M k) - sum_list (M k)) ks"] by (simp add: comp_def)
  also have "\<dots> \<le> (\<Sum>k\<leftarrow>ks. c * sum_list (M k))"
    by (intro sum_list_mono) (simp add: each)
  also have "\<dots> = c * (\<Sum>k\<leftarrow>ks. sum_list (M k))"
    by (simp add: sum_list_const_mult)
  finally show ?thesis using split unfolding c_def M_def by simp
qed

lemma products_revenue_sum:
  "sum_list (map revenue (coffeeChartData data))
   = (\<Sum>k\<leftarrow>first_seen (filter plain_key (map coffee_name data)).
        fsum (map money (records_of coffee_name k data)))"
  by (simp add: coffeeChartData_closed comp_def sum_list_own_key_order)

lemma payments_revenue_sum:
  "sum_list (map pay_revenue (paymentChartData data))
   = (\<Sum>k\<leftarrow>first_seen (filter plain_key (map cash_type data)).
        fsum (map money (records_of cash_type k data)))"
  by (simp add: paymentChartData_closed comp_def sum_list_own_key_order)

text \<open>
  C2 (as amended). For every input whose product names and payment methods are not names
  of inherited properties, whose amounts are not negative and whose additions do not
  overflow (the exact sum of the \<open>n\<close> amounts, times \<open>(1 + 1 / 2 ^ 53) ^ n\<close>, is below
  \<open>2 ^ 1023\<close>), \<open>totalRevenue\<close> equals the sum of the products' revenues, and the sum
  of the payments' revenues, up to the rounding of the additions: each pair differs by at
  most \<open>2 * ((1 + 1 / 2 ^ 53) ^ n - 1)\<close> times the exact sum of the amounts. The sums
  over the entries are exact sums of the entries' binary64 values.
\<close>

theorem revenue_conservation_rounded:
  assumes "\<forall>r\<in>set data. plain_key (coffee_name r) \<and> plain_key (cash_type r) \<and> 0 \<le> money r"
    and "(1 + 1 / 2 ^ 53) ^ length data * sum_list (map money data) < 2 ^ 1023"
  shows "\<bar>totalRevenue data - sum_list (map revenue (coffeeChartData data))\<bar>
           \<le> 2 * ((1 + 1 / 2 ^ 53) ^ length data - 1) * sum_list (map money data)
         \<and> \<bar>totalRevenue data - sum_list (map pay_revenue (paymentChartData data))\<bar>
           \<le> 2 * ((1 + 1 / 2 ^ 53) ^ length data - 1) * sum_list (map money data)"
proof -
  define S where "S = sum_list (map money data)"
  define c :: rat where "c = (1 + 1 / 2 ^ 53) ^ length data - 1"
  have pos: "\<forall>r\<in>set data. 0 \<le> money r" using assms(1) by simp
  have total: "\<bar>totalRevenue data - S\<bar> \<le> c * S"
    using fsum_error[of "map money data"] pos unfolding totalRevenue_fsum S_def c_def by simp
  have d1: "distinct (first_seen (filter plain_key (map coffee_name data)))"
    and d2: "distinct (first_seen (filter plain_key (map cash_type data)))" by simp_all
  have "\<bar>sum_list (map revenue (coffeeChartData data)) - S\<bar> \<le> c * S"
    using grouped_revenue_error[OF d1 pos, where key = coffee_name] assms(1)
    unfolding products_revenue_sum S_def c_def by (simp add: plain_filter_all)
  moreover have "\<bar>sum_list (map pay_revenue (paymentChartData data)) - S\<bar> \<le> c * S"
    using grouped_revenue_error[OF d2 pos, where key = cash_type] assms(1)
    unfolding payments_revenue_sum S_def c_def by (simp add: plain_filter_all)
  ultimately show ?thesis using total unfolding S_def c_def by linarith
qed

theorem revenue_conservation_rounded_witness:
  "list_all (\<lambda>r. plain_key (coffee_name r) \<and> plain_key (cash_type r) \<and> 0 \<le> money r) scenario_A
   \<and> (1 + 1 / 2 ^ 53) ^ length scenario_A * sum_list (map money scenario_A) < 2 ^ 1023
   \<and> \<bar>totalRevenue scenario_A - sum_list (map revenue (coffeeChartData scenario_A))\<bar>
           \<le> 2 * ((1 + 1 / 2 ^ 53) ^ length scenario_A - 1) * sum_list (map money scenario_A)
   \<and> \<bar>totalRevenue scenario_A - sum_list (map pay_revenue (paymentChartData scenario_A))\<bar>
           \<le> 2 * ((1 + 1 / 2 ^ 53) ^ length scenario_A - 1) * sum_list (map money scenario_A)"
proof -
  have h: "\<forall>r\<in>set scenario_A. plain_key (coffee_name r) \<and> plain_key (cash_type r) \<and> 0 \<le> money r"
    by (simp add: scenario_A_def mk_record_def plain_key_def Object_prototype_keys_def)
  have n: "(1 + 1 / 2 ^ 53) ^ length scenario_A * sum_list (map money scenario_A) < 2 ^ 1023"
    by (simp add: scenario_A_def mk_record_def)
  show ?thesis unfolding list_all_iff using h n revenue_conservation_rounded[OF h n] by blast
qed

text \<open>
  The equality itself fails under rounding. With the amounts 0.3 (Latte), 0.2 (Espresso)
  and 0.1 (Latte), \<open>totalRevenue\<close> is \<open>(0.3 + 0.2) + 0.1\<close>, the binary64 value 0.6,
  while the revenues of the products are \<open>0.3 + 0.1\<close> and 0.2, whose sum, exact or
  rounded, is the next binary64 value after 0.6.
\<close>

lemma dbl_03: "fl (3 / 10) = 5404319552844595 / 18014398509481984"
  by (rule fl_eqI'[where q = "-54" and m = 5404319552844595]) (simp_all add: power_int_minus)

lemma dbl_02: "fl (1 / 5) = 3602879701896397 / 18014398509481984"
  by (rule fl_eqI'[where q = "-55" and m = 7205759403792794]) (simp_all add: power_int_minus)

lemma dbl_01: "fl (1 / 10) = 3602879701896397 / 36028797018963968"
  by (rule fl_eqI'[where q = "-56" and m = 7205759403792794]) (simp_all add: power_int_minus)

lemma add_0_03:
  "fadd 0 (5404319552844595 / 18014398509481984) = 5404319552844595 / 18014398509481984"
  unfolding fadd_def
  by (rule fl_eqI'[where q = "-54" and m = 5404319552844595]) (simp_all add: power_int_minus)

lemma add_0_02:
  "fadd 0 (3602879701896397 / 18014398509481984) = 3602879701896397 / 18014398509481984"
  unfolding fadd_def
  by (rule fl_eqI'[where q = "-55" and m = 7205759403792794]) (simp_all add: power_int_minus)

lemma add_03_02:
  "fadd (5404319552844595 / 18014398509481984) (3602879701896397 / 18014398509481984) = 1 / 2"
  unfolding fadd_def
  by (rule fl_eqI'[where q = "-53" and m = 4503599627370496]) (simp_all add: power_int_minus)

lemma add_05_01:
  "fadd (1 / 2) (3602879701896397 / 36028797018963968) = 5404319552844595 / 9007199254740992"
  unfolding fadd_def
  by (rule fl_eqI'[where q = "-53" and m = 5404319552844595]) (simp_all add: power_int_minus)

lemma add_03_01:
  "fadd (5404319552844595 / 18014398509481984) (3602879701896397 / 36028797018963968)
   = 3602879701896397 / 9007199254740992"
  unfolding fadd_def
  by (rule fl_eqI'[where q = "-54" and m = 7205759403792794]) (simp_all add: power_int_minus)

lemma add_0_03p:
  "fadd 0 (3602879701896397 / 9007199254740992) = 3602879701896397 / 9007199254740992"
  unfolding fadd_def
  by (rule fl_eqI'[where q = "-54" and m = 7205759403792794]) (simp_all add: power_int_minus)

lemma add_04_02:
  "fadd (3602879701896397 / 9007199254740992) (3602879701896397 / 18014398509481984)
   = 1351079888211149 / 2251799813685248"
  unfolding fadd_def
  by (rule fl_eqI'[where q = "-53" and m = 5404319552844596]) (simp_all add: power_int_minus)

lemmas rounding_values = dbl_03 dbl_02 dbl_01 add_0_03 add_0_02 add_03_02 add_05_01 add_03_01

lemma rounding_total: "totalRevenue rounding_data = 5404319552844595 / 9007199254740992"
  unfolding totalRevenue_fsum
  by (simp add: rounding_data_def mk_record_def fsum_def rounding_values)

lemma rounding_products:
  "map revenue (coffeeChartData rounding_data)
   = [3602879701896397 / 9007199254740992, 3602879701896397 / 18014398509481984]"
  by (simp add: coffeeChartData_closed rounding_data_def mk_record_def fsum_def rounding_values
       records_of_def plain_key_def Object_prototype_keys_def first_seen_def own_key_order_def
       is_array_index_def is_digit_def)

theorem revenue_conservation_counterexample:
  "totalRevenue rounding_data \<noteq> sum_list (map revenue (coffeeChartData rounding_data))
   \<and> totalRevenue rounding_data \<noteq> fsum (map revenue (coffeeChartData rounding_data))"
  unfolding rounding_total rounding_products
  by (simp add: fsum_def add_0_03p add_04_02)


section \<open>Order conservation\<close>

text \<open>
  The order counts of the products (payments) sum to the number of records whose product
  name (payment method) is not the name of an inherited property; those of the hourly
  sequence to the number of records with an hour from 0 to 23.
\<close>

lemma products_count_sum:
  "sum_list (map count (coffeeChartData data))
   = length (filter (\<lambda>r. plain_key (coffee_name r)) data)"
proof -
  have "sum_list (map count (coffeeChartData data))
        = (\<Sum>k\<leftarrow>first_seen (filter plain_key (map coffee_name data)). length (records_of coffee_name k data))"
    by (simp add: coffeeChartData_closed comp_def sum_list_own_key_order)
  also have "\<dots> = length (filter (\<lambda>r. plain_key (coffee_name r)) data)"
    by (subst length_by_key) (auto intro!: arg_cong[where f = length] filter_cong)
  finally show ?thesis .
qed

lemma payments_count_sum:
  "sum_list (map pay_count (paymentChartData data))
   = length (filter (\<lambda>r. plain_key (cash_type r)) data)"
proof -
  have "sum_list (map pay_count (paymentChartData data))
        = (\<Sum>k\<leftarrow>first_seen (filter plain_key (map cash_type data)). length (records_of cash_type k data))"
    by (simp add: paymentChartData_closed comp_def sum_list_own_key_order)
  also have "\<dots> = length (filter (\<lambda>r. plain_key (cash_type r)) data)"
    by (subst length_by_key) (auto intro!: arg_cong[where f = length] filter_cong)
  finally show ?thesis .
qed

lemma hourly_count_sum:
  "sum_list (map orders (hourlyChartData data))
   = length (filter (\<lambda>r. hour r \<in> set (map of_nat [0..<24])) data)"
proof -
  have "sum_list (map orders (hourlyChartData data))
        = (\<Sum>h\<leftarrow>[0..<24]. length (records_of hour (of_nat h) data))"
    using sum_list_filter_pos[of "\<lambda>h. length (records_of hour (of_nat h) data)" "[0..<24]"]
    by (simp add: hourlyChartData_closed comp_def)
  also have "\<dots> = (\<Sum>k\<leftarrow>map of_nat [0..<24]. length (records_of hour k data))"
    by (simp add: comp_def)
  also have "\<dots> = length (filter (\<lambda>r. hour r \<in> set (map of_nat [0..<24])) data)"
    using distinct_hours by (rule length_by_key)
  finally show ?thesis .
qed

lemma order_conservation_plain:
  assumes "input_contract data"
    and "\<forall>r\<in>set data. plain_key (coffee_name r) \<and> plain_key (cash_type r)"
  shows "sum_list (map count (coffeeChartData data)) = totalOrders data"
    and "sum_list (map pay_count (paymentChartData data)) = totalOrders data"
    and "sum_list (map orders (hourlyChartData data)) = totalOrders data"
  using assms
  by (simp_all add: products_count_sum payments_count_sum hourly_count_sum totalOrders_def
        input_contract_def filter_id_conv[THEN iffD2])

lemma inherited_product_contract: "input_contract inherited_product"
  by (simp add: input_contract_def inherited_product_def mk_record_def)

text \<open>
  C3 (the code at a failing input). One record that satisfies the input contract, for
  the product named \<open>constructor\<close>: \<open>totalOrders\<close> is 1, and the products sequence
  is empty, so its order counts sum to 0.
\<close>

theorem order_conservation_inherited_product:
  "totalOrders inherited_product = 1
   \<and> coffeeChartData inherited_product = []
   \<and> sum_list (map count (coffeeChartData inherited_product)) = 0"
  by (simp add: coffeeChartData_closed inherited_product_def mk_record_def plain_key_def
        Object_prototype_keys_def first_seen_def own_key_order_def totalOrders_def)


section \<open>Order of the products and the payments\<close>

text \<open>
  C4 (as amended). For every input whose product names and payment methods are not names
  of inherited properties, the products and the payments list their distinct keys in the
  enumeration order of the object that groups them: the keys that are array indices
  first, in ascending numeric order, then the other keys in first-seen order. When no key
  is an array index this is the first-seen order.
\<close>

theorem enumeration_order:
  assumes "\<forall>r\<in>set data. plain_key (coffee_name r) \<and> plain_key (cash_type r)"
  shows "map name (coffeeChartData data) = own_key_order (first_seen (map coffee_name data))
       \<and> map pay_method (paymentChartData data) = own_key_order (first_seen (map cash_type data))
       \<and> ((\<forall>r\<in>set data. \<not> is_array_index (coffee_name r))
            \<longrightarrow> map name (coffeeChartData data) = first_seen (map coffee_name data))
       \<and> ((\<forall>r\<in>set data. \<not> is_array_index (cash_type r))
            \<longrightarrow> map pay_method (paymentChartData data) = first_seen (map cash_type data))"
proof -
  have c: "filter plain_key (map coffee_name data) = map coffee_name data"
    and p: "filter plain_key (map cash_type data) = map cash_type data"
    using assms by (simp_all add: filter_plain_all)
  show ?thesis
    unfolding products_keys payments_keys c p
    by (auto intro!: own_key_order_plain)
qed

theorem enumeration_order_witness:
  "list_all (\<lambda>r. plain_key (coffee_name r) \<and> plain_key (cash_type r)) scenario_A
   \<and> list_all (\<lambda>r. \<not> is_array_index (coffee_name r)) scenario_A
   \<and> list_all (\<lambda>r. \<not> is_array_index (cash_type r)) scenario_A
   \<and> map name (coffeeChartData scenario_A) = first_seen (map coffee_name scenario_A)
   \<and> map pay_method (paymentChartData scenario_A) = first_seen (map cash_type scenario_A)"
proof -
  have h: "\<forall>r\<in>set scenario_A. plain_key (coffee_name r) \<and> plain_key (cash_type r)"
    by (simp add: scenario_A_def mk_record_def plain_key_def Object_prototype_keys_def)
  have i: "\<forall>r\<in>set scenario_A. \<not> is_array_index (coffee_name r)"
    and j: "\<forall>r\<in>set scenario_A. \<not> is_array_index (cash_type r)"
    by (simp_all add: scenario_A_def mk_record_def is_array_index_def is_digit_def)
  show ?thesis unfolding list_all_iff using h i j enumeration_order[OF h] by blast
qed

text \<open>
  First-seen order fails for keys that are array indices: the products \<open>20\<close> and
  \<open>3\<close>, seen in this order, are listed as \<open>3\<close>, \<open>20\<close>.
\<close>

theorem first_seen_order_counterexample:
  "map name (coffeeChartData numbered_products) = [''3'', ''20'']
   \<and> first_seen (map coffee_name numbered_products) = [''20'', ''3'']
   \<and> map name (coffeeChartData numbered_products)
       \<noteq> first_seen (map coffee_name numbered_products)"
  by (simp add: products_keys numbered_products_def mk_record_def plain_key_def
        Object_prototype_keys_def first_seen_def own_key_order_def is_array_index_def
        is_digit_def index_value_def)


section \<open>Top product\<close>

lemma top_scan:
  "\<exists>i<length (x # xs).
      foldl keep_first_max x xs = (x # xs) ! i
      \<and> (\<forall>j<length (x # xs). revenue ((x # xs) ! j) \<le> revenue ((x # xs) ! i))
      \<and> (\<forall>j<i. revenue ((x # xs) ! j) < revenue ((x # xs) ! i))"
proof (induction xs rule: rev_induct)
  case Nil
  show ?case by simp
next
  case (snoc y xs)
  then obtain i where i: "i < length (x # xs)" "foldl keep_first_max x xs = (x # xs) ! i"
    "\<forall>j<length (x # xs). revenue ((x # xs) ! j) \<le> revenue ((x # xs) ! i)"
    "\<forall>j<i. revenue ((x # xs) ! j) < revenue ((x # xs) ! i)" by blast
  let ?zs = "x # xs @ [y]"
  have pre: "?zs ! j = (x # xs) ! j" if "j < length (x # xs)" for j
    using that nth_append[of "x # xs" "[y]" j] by simp
  have last: "?zs ! length (x # xs) = y"
    using nth_append_length[of "x # xs" y "[]"] by simp
  show ?case
  proof (cases "revenue ((x # xs) ! i) < revenue y")
    case True
    have "foldl keep_first_max x (xs @ [y]) = ?zs ! length (x # xs)"
      using True i(2) last by (simp add: keep_first_max_def)
    moreover have "\<forall>j<length ?zs. revenue (?zs ! j) \<le> revenue (?zs ! length (x # xs))"
    proof (intro allI impI)
      fix j assume "j < length ?zs"
      then consider "j < length (x # xs)" | "j = length (x # xs)" by fastforce
      then show "revenue (?zs ! j) \<le> revenue (?zs ! length (x # xs))"
      proof cases
        case 1
        then show ?thesis using i(3) True pre[OF 1] last by (metis le_less_trans less_imp_le)
      next
        case 2
        then show ?thesis by simp
      qed
    qed
    moreover have "\<forall>j<length (x # xs). revenue (?zs ! j) < revenue (?zs ! length (x # xs))"
      using i(3) True pre last by (metis le_less_trans)
    ultimately show ?thesis by (intro exI[of _ "length (x # xs)"]) simp
  next
    case False
    have "foldl keep_first_max x (xs @ [y]) = ?zs ! i"
      using False i(1,2) pre[OF i(1)] by (simp add: keep_first_max_def)
    moreover have "\<forall>j<length ?zs. revenue (?zs ! j) \<le> revenue (?zs ! i)"
    proof (intro allI impI)
      fix j assume "j < length ?zs"
      then consider "j < length (x # xs)" | "j = length (x # xs)" by fastforce
      then show "revenue (?zs ! j) \<le> revenue (?zs ! i)"
      proof cases
        case 1
        then show ?thesis using i(1,3) pre by metis
      next
        case 2
        then show ?thesis using False last pre[OF i(1)] by (simp add: not_less)
      qed
    qed
    moreover have "\<forall>j<i. revenue (?zs ! j) < revenue (?zs ! i)"
      using i(1,4) pre by (metis less_trans)
    ultimately show ?thesis using i(1) by (intro exI[of _ i]) simp
  qed
qed

lemma top_product_Cons: "top_product (x # xs) = Inr (foldl keep_first_max x xs)"
proof -
  have "(\<lambda>top current. if revenue current > revenue top then current else top) = keep_first_max"
    by (intro ext) (simp add: keep_first_max_def)
  then show ?thesis by (simp add: top_product_def)
qed

lemma top_product_first_max:
  assumes "items \<noteq> []"
  shows "\<exists>i<length items.
      top_product items = Inr (items ! i)
      \<and> (\<forall>j<length items. revenue (items ! j) \<le> revenue (items ! i))
      \<and> (\<forall>j<i. revenue (items ! j) < revenue (items ! i))"
proof -
  obtain x xs where "items = x # xs" using assms by (cases items) auto
  then show ?thesis using top_scan[of x xs] by (simp only: top_product_Cons sum.inject)
qed

lemma first_index_less: "x \<in> set xs \<Longrightarrow> first_index xs x < length xs"
  by (induction xs) (auto simp: first_index_def)

lemma first_index_snoc:
  "first_index (xs @ [y]) x = (if x \<in> set xs then first_index xs x
                               else if x = y then length xs else Suc (length xs))"
  by (induction xs) (auto simp: first_index_def)

lemma first_seen_by_first_index:
  "sorted_wrt (\<lambda>a b. first_index xs a < first_index xs b) (first_seen xs)"
proof (induction xs rule: rev_induct)
  case Nil
  show ?case by simp
next
  case (snoc x xs)
  have old: "sorted_wrt (\<lambda>a b. first_index (xs @ [x]) a < first_index (xs @ [x]) b) (first_seen xs)"
    using snoc by (rule sorted_wrt_mono_rel[rotated]) (simp add: first_index_snoc)
  show ?case
  proof (cases "x \<in> set xs")
    case True
    then show ?thesis using old by (simp add: first_seen_snoc)
  next
    case False
    then show ?thesis
      using old by (auto simp: first_seen_snoc sorted_wrt_append first_index_snoc first_index_less)
  qed
qed

lemma first_seen_index_mono:
  assumes "i \<le> j" "j < length (first_seen xs)"
  shows "first_index xs (first_seen xs ! i) \<le> first_index xs (first_seen xs ! j)"
proof (cases "i = j")
  case True
  then show ?thesis by simp
next
  case False
  then have lt: "i < j" using assms(1) by simp
  show ?thesis
    using sorted_wrt_nth_less[OF first_seen_by_first_index lt assms(2)] by simp
qed

text \<open>
  C5 (as amended). For every non-empty products sequence the top-product insight returns
  an entry with maximum revenue, and of several such entries the first in products order
  (every entry before it has strictly smaller revenue). For a non-empty input whose
  product names are neither array indices nor names of inherited properties, the entry
  returned is that of a product of the input with maximum revenue, and of all products
  with that revenue it is the one whose first record comes first in the input.
\<close>

theorem top_product_insight:
  "(items \<noteq> [] \<longrightarrow>
      (\<exists>i<length items.
          top_product items = Inr (items ! i)
          \<and> (\<forall>j<length items. revenue (items ! j) \<le> revenue (items ! i))
          \<and> (\<forall>j<i. revenue (items ! j) < revenue (items ! i))))
   \<and> (data \<noteq> [] \<and> (\<forall>r\<in>set data. plain_key (coffee_name r) \<and> \<not> is_array_index (coffee_name r)) \<longrightarrow>
      (\<exists>p. top_product (coffeeChartData data) = Inr p
          \<and> name p \<in> coffee_name ` set data
          \<and> revenue p = product_revenue data (name p)
          \<and> (\<forall>k\<in>coffee_name ` set data. product_revenue data k \<le> revenue p)
          \<and> (\<forall>k\<in>coffee_name ` set data. product_revenue data k = revenue p \<longrightarrow>
                first_index (map coffee_name data) (name p)
                  \<le> first_index (map coffee_name data) k)))"
proof (intro conjI impI)
  assume "items \<noteq> []"
  then show "\<exists>i<length items.
          top_product items = Inr (items ! i)
          \<and> (\<forall>j<length items. revenue (items ! j) \<le> revenue (items ! i))
          \<and> (\<forall>j<i. revenue (items ! j) < revenue (items ! i))"
    by (rule top_product_first_max)
next
  assume a: "data \<noteq> [] \<and> (\<forall>r\<in>set data. plain_key (coffee_name r) \<and> \<not> is_array_index (coffee_name r))"
  let ?items = "coffeeChartData data"
  let ?ns = "first_seen (map coffee_name data)"
  have "filter plain_key (map coffee_name data) = map coffee_name data"
    using a by (simp add: filter_plain_all)
  then have "map name ?items = own_key_order ?ns"
    by (simp add: products_keys)
  also have "\<dots> = ?ns"
    using a by (intro own_key_order_plain) auto
  finally have names: "map name ?items = ?ns" .
  have len: "length ?ns = length ?items" using names by (metis length_map)
  have nth: "name (?items ! j) = ?ns ! j" if "j < length ?items" for j
    using that names by (metis nth_map)
  have rev: "revenue (?items ! j) = product_revenue data (?ns ! j)" if "j < length ?items" for j
    using coffeeChartData_entry(4)[of "?items ! j" data] that nth[OF that]
    by (simp add: product_revenue_def)
  have "set ?ns \<noteq> {}" using a by simp
  then have ne: "?items \<noteq> []" using names by (metis list.map_disc_iff set_empty)
  obtain i where i: "i < length ?items" "top_product ?items = Inr (?items ! i)"
    "\<forall>j<length ?items. revenue (?items ! j) \<le> revenue (?items ! i)"
    "\<forall>j<i. revenue (?items ! j) < revenue (?items ! i)"
    using top_product_first_max[OF ne] by blast
  define p where "p = ?items ! i"
  have p: "top_product ?items = Inr p" "name p = ?ns ! i" "revenue p = product_revenue data (name p)"
    using i(1,2) nth[OF i(1)] rev[OF i(1)] unfolding p_def by simp_all
  have mem: "name p \<in> coffee_name ` set data"
    using coffeeChartData_entry(1)[of p data] i(1) unfolding p_def by simp
  have at: "\<exists>j<length ?items. ?ns ! j = k" if "k \<in> coffee_name ` set data" for k
  proof -
    have "k \<in> set ?ns" using that by simp
    then show ?thesis unfolding in_set_conv_nth len by blast
  qed
  have mx: "\<forall>k\<in>coffee_name ` set data. product_revenue data k \<le> revenue p"
  proof
    fix k assume "k \<in> coffee_name ` set data"
    then obtain j where j: "j < length ?items" "?ns ! j = k" using at by blast
    then show "product_revenue data k \<le> revenue p"
      using i(3) rev[OF j(1)] unfolding p_def by auto
  qed
  have tie: "\<forall>k\<in>coffee_name ` set data. product_revenue data k = revenue p \<longrightarrow>
                first_index (map coffee_name data) (name p)
                  \<le> first_index (map coffee_name data) k"
  proof (intro ballI impI)
    fix k assume k: "k \<in> coffee_name ` set data" and eq: "product_revenue data k = revenue p"
    obtain j where j: "j < length ?items" "?ns ! j = k" using at[OF k] by blast
    have "\<not> j < i"
    proof
      assume "j < i"
      then have "revenue (?items ! j) < revenue (?items ! i)" using i(4) by blast
      then show False using eq rev[OF j(1)] j(2) unfolding p_def by simp
    qed
    then have "i \<le> j" by simp
    then have "first_index (map coffee_name data) (?ns ! i)
               \<le> first_index (map coffee_name data) (?ns ! j)"
      using j(1) len by (intro first_seen_index_mono) simp_all
    then show "first_index (map coffee_name data) (name p)
                 \<le> first_index (map coffee_name data) k"
      using p(2) j(2) by simp
  qed
  show "\<exists>p. top_product ?items = Inr p
          \<and> name p \<in> coffee_name ` set data
          \<and> revenue p = product_revenue data (name p)
          \<and> (\<forall>k\<in>coffee_name ` set data. product_revenue data k \<le> revenue p)
          \<and> (\<forall>k\<in>coffee_name ` set data. product_revenue data k = revenue p \<longrightarrow>
                first_index (map coffee_name data) (name p)
                  \<le> first_index (map coffee_name data) k)"
    using p mem mx tie by blast
qed

lemma fadd_0_1: "fadd 0 1 = 1"
  unfolding fadd_def
  by (rule fl_eqI'[where q = "-52" and m = 4503599627370496]) (simp_all add: power_int_minus)

lemma fadd_0_5: "fadd 0 5 = 5"
  unfolding fadd_def
  by (rule fl_eqI'[where q = "-50" and m = 5629499534213120]) (simp_all add: power_int_minus)

lemma tied_menu_revenues:
  "map (product_revenue tied_menu) [''Zest'', ''Tea'', ''Mocha''] = [1, 5, 5]"
  by (simp add: product_revenue_def tied_menu_def mk_record_def records_of_def fsum_def
        fadd_0_1 fadd_0_5)

lemma tied_menu_positions:
  "map (first_index (map coffee_name tied_menu)) [''Zest'', ''Tea'', ''Mocha''] = [0, 1, 2]"
  by (simp add: first_index_def tied_menu_def mk_record_def)

text \<open>
  Tea and Mocha share the maximum revenue 5, and Tea comes first in the input: the
  insight returns Tea.
\<close>

theorem top_product_insight_witness:
  "coffeeChartData tied_menu \<noteq> [] \<and> tied_menu \<noteq> []
   \<and> list_all (\<lambda>r. plain_key (coffee_name r) \<and> \<not> is_array_index (coffee_name r)) tied_menu
   \<and> map (product_revenue tied_menu) [''Zest'', ''Tea'', ''Mocha''] = [1, 5, 5]
   \<and> (\<exists>p. top_product (coffeeChartData tied_menu) = Inr p \<and> name p = ''Tea'' \<and> revenue p = 5)"
proof -
  have h2: "tied_menu \<noteq> []" by (simp add: tied_menu_def)
  have h3: "\<forall>r\<in>set tied_menu. plain_key (coffee_name r) \<and> \<not> is_array_index (coffee_name r)"
    by (simp add: tied_menu_def mk_record_def plain_key_def Object_prototype_keys_def
          is_array_index_def is_digit_def)
  have names: "coffee_name ` set tied_menu = {''Zest'', ''Tea'', ''Mocha''}"
    by (simp add: tied_menu_def mk_record_def)
  have fp: "filter plain_key (map coffee_name tied_menu) = map coffee_name tied_menu"
    using h3 by (simp add: filter_plain_all)
  have "set (map name (coffeeChartData tied_menu)) = coffee_name ` set tied_menu"
    unfolding products_keys fp by simp
  then have "set (map name (coffeeChartData tied_menu)) \<noteq> {}" unfolding names by simp
  then have h1: "coffeeChartData tied_menu \<noteq> []" by auto
  have r: "product_revenue tied_menu ''Zest'' = 1" "product_revenue tied_menu ''Tea'' = 5"
    "product_revenue tied_menu ''Mocha'' = 5"
    using tied_menu_revenues by simp_all
  have f: "first_index (map coffee_name tied_menu) ''Tea'' = 1"
    "first_index (map coffee_name tied_menu) ''Mocha'' = 2"
    using tied_menu_positions by simp_all
  have "tied_menu \<noteq> []
          \<and> (\<forall>r\<in>set tied_menu. plain_key (coffee_name r) \<and> \<not> is_array_index (coffee_name r)) \<longrightarrow>
        (\<exists>p. top_product (coffeeChartData tied_menu) = Inr p
          \<and> name p \<in> coffee_name ` set tied_menu
          \<and> revenue p = product_revenue tied_menu (name p)
          \<and> (\<forall>k\<in>coffee_name ` set tied_menu. product_revenue tied_menu k \<le> revenue p)
          \<and> (\<forall>k\<in>coffee_name ` set tied_menu. product_revenue tied_menu k = revenue p \<longrightarrow>
                first_index (map coffee_name tied_menu) (name p)
                  \<le> first_index (map coffee_name tied_menu) k))"
    using top_product_insight[of "coffeeChartData tied_menu" tied_menu] by (rule conjunct2)
  then obtain p where p: "top_product (coffeeChartData tied_menu) = Inr p"
    "name p \<in> coffee_name ` set tied_menu"
    "revenue p = product_revenue tied_menu (name p)"
    "\<forall>k\<in>coffee_name ` set tied_menu. product_revenue tied_menu k \<le> revenue p"
    "\<forall>k\<in>coffee_name ` set tied_menu. product_revenue tied_menu k = revenue p \<longrightarrow>
        first_index (map coffee_name tied_menu) (name p)
          \<le> first_index (map coffee_name tied_menu) k"
    using h2 h3 by (elim impE exE conjE) (rule conjI)
  have tea: "''Tea'' \<in> coffee_name ` set tied_menu" unfolding names by simp
  have cases: "name p = ''Zest'' \<or> name p = ''Tea'' \<or> name p = ''Mocha''"
    using p(2) unfolding names by simp
  have "name p \<noteq> ''Zest''"
  proof
    assume z: "name p = ''Zest''"
    have "product_revenue tied_menu ''Tea'' \<le> revenue p" using p(4) tea by blast
    then show False using p(3) z r by simp
  qed
  moreover have "name p \<noteq> ''Mocha''"
  proof
    assume m: "name p = ''Mocha''"
    have "product_revenue tied_menu ''Tea'' = revenue p \<longrightarrow>
          first_index (map coffee_name tied_menu) (name p)
            \<le> first_index (map coffee_name tied_menu) ''Tea''"
      using p(5) tea by blast
    then show False using p(3) m r f by simp
  qed
  ultimately have t: "name p = ''Tea''" using cases by blast
  have "top_product (coffeeChartData tied_menu) = Inr p \<and> name p = ''Tea'' \<and> revenue p = 5"
    using p(1,3) t r by simp
  then have "\<exists>p. top_product (coffeeChartData tied_menu) = Inr p \<and> name p = ''Tea'' \<and> revenue p = 5"
    by (rule exI)
  then show ?thesis using h1 h2 h3 tied_menu_revenues by (simp add: list_all_iff)
qed

text \<open>
  The products \<open>2\<close> and \<open>1\<close>, seen in this order and each with revenue 3, are
  listed as \<open>1\<close>, \<open>2\<close>: the insight returns \<open>1\<close>, the second in input order.
\<close>

lemma fadd_0_3: "fadd 0 3 = 3"
  unfolding fadd_def
  by (rule fl_eqI'[where q = "-51" and m = 6755399441055744]) (simp_all add: power_int_minus)

theorem top_product_input_order_counterexample:
  "map coffee_name tied_products = [''2'', ''1'']
   \<and> map (\<lambda>p. (name p, revenue p)) (coffeeChartData tied_products) = [(''1'', 3), (''2'', 3)]
   \<and> map_sum id name (top_product (coffeeChartData tied_products)) = Inr ''1''"
  by (simp add: coffeeChartData_closed tied_products_def mk_record_def plain_key_def
        Object_prototype_keys_def first_seen_def own_key_order_def is_array_index_def
        is_digit_def index_value_def records_of_def fsum_def fadd_0_3 top_product_def)


section \<open>Payment shares\<close>

text \<open>
  C6 (as amended). For every non-empty input (of fewer than \<open>2 ^ 32\<close> records, as any
  JavaScript array) whose payment methods are not names of inherited properties, each
  payments entry's \<open>percentage\<close> is a value with one decimal place within \<open>0.05\<close>
  of \<open>100 * count / totalOrders\<close>, and the sum of the percentages over the \<open>N\<close>
  payments entries equals \<open>100\<close> within \<open>0.05 * N\<close>.
\<close>

theorem share_percent_closure:
  assumes "data \<noteq> []" and "length data < 2 ^ 32"
    and "\<forall>r\<in>set data. plain_key (cash_type r)"
  shows "(\<forall>p\<in>set (paymentChartData data).
            (\<exists>n::int. percentage p = of_int n / 10)
            \<and> \<bar>percentage p - 100 * of_nat (pay_count p) / of_nat (totalOrders data)\<bar> \<le> 1 / 20)
         \<and> \<bar>sum_list (map percentage (paymentChartData data)) - 100\<bar>
             \<le> of_nat (length (paymentChartData data)) / 20"
proof -
  define t where "t = totalOrders data"
  define q :: "payment \<Rightarrow> rat" where "q = (\<lambda>p. 100 * of_nat (pay_count p) / of_nat t)"
  have tpos: "0 < t" using assms(1) by (simp add: t_def totalOrders_def)
  have each: "(\<exists>n::int. percentage p = of_int n / 10) \<and> \<bar>percentage p - q p\<bar> \<le> 1 / 20"
    if mem: "p \<in> set (paymentChartData data)" for p
  proof -
    define k where "k = pay_method p"
    have k: "k \<in> cash_type ` set data"
      and p: "pay_count p = length (records_of cash_type k data)"
             "percentage p = toFixed 1 (fmul (fdiv (of_nat (length (records_of cash_type k data))) (of_nat t)) 100)"
      using paymentChartData_entry[OF mem] unfolding k_def t_def by simp_all
    have "0 < length (records_of cash_type k data)"
      using records_of_present[OF k] by simp
    moreover have "length (records_of cash_type k data) \<le> t"
      unfolding t_def totalOrders_def by (rule length_records_of_le)
    moreover have "t < 2 ^ 32" using assms(2) by (simp add: t_def totalOrders_def)
    ultimately show ?thesis
      using share_rounding[of "length (records_of cash_type k data)" t] p unfolding q_def by simp
  qed
  have "sum_list (map q (paymentChartData data))
        = 100 * of_nat (sum_list (map pay_count (paymentChartData data))) / of_nat t"
    unfolding q_def by (rule sum_list_shares)
  also have "sum_list (map pay_count (paymentChartData data)) = t"
    using assms(3) by (simp add: payments_count_sum t_def totalOrders_def)
  finally have qs: "sum_list (map q (paymentChartData data)) = 100" using tpos by simp
  have "\<bar>sum_list (map percentage (paymentChartData data)) - sum_list (map q (paymentChartData data))\<bar>
        = \<bar>\<Sum>p\<leftarrow>paymentChartData data. percentage p - q p\<bar>"
    by (simp add: sum_list_subtractf)
  also have "\<dots> \<le> (\<Sum>p\<leftarrow>paymentChartData data. \<bar>percentage p - q p\<bar>)"
    using sum_list_abs[of "map (\<lambda>p. percentage p - q p) (paymentChartData data)"]
    by (simp add: comp_def)
  also have "\<dots> \<le> (\<Sum>p\<leftarrow>paymentChartData data. 1 / 20)"
    using each by (intro sum_list_mono) blast
  also have "\<dots> = of_nat (length (paymentChartData data)) / 20"
    by (simp add: sum_list_triv)
  finally show ?thesis using each qs unfolding q_def t_def by simp
qed

theorem share_percent_closure_witness:
  "scenario_A \<noteq> [] \<and> length scenario_A < 2 ^ 32
   \<and> list_all (\<lambda>r. plain_key (cash_type r)) scenario_A
   \<and> list_all (\<lambda>p. (\<exists>n::int. percentage p = of_int n / 10)
            \<and> \<bar>percentage p - 100 * of_nat (pay_count p) / of_nat (totalOrders scenario_A)\<bar> \<le> 1 / 20)
         (paymentChartData scenario_A)
   \<and> \<bar>sum_list (map percentage (paymentChartData scenario_A)) - 100\<bar>
             \<le> of_nat (length (paymentChartData scenario_A)) / 20"
proof -
  have h1: "scenario_A \<noteq> []" and h2: "length scenario_A < 2 ^ 32"
    and h3: "\<forall>r\<in>set scenario_A. plain_key (cash_type r)"
    by (simp_all add: scenario_A_def mk_record_def plain_key_def Object_prototype_keys_def)
  show ?thesis unfolding list_all_iff using h1 h2 h3 share_percent_closure[OF h1 h2 h3] by blast
qed

text \<open>
  The quotient is multiplied by 100 after it was rounded, so at a tie the formatted share
  can differ from the formatted exact percentage: 23 of 80 orders are 28.75 percent, and
  the share is 28.7.
\<close>

lemma share_tie_example:
  "toFixed 1 (fmul (fdiv 23 80) 100) = 287 / 10 \<and> toFixed 1 (100 * 23 / 80) = 288 / 10"
proof -
  have "fdiv 23 80 = 2589569785738035 / 9007199254740992"
    unfolding fdiv_def
    by (rule fl_eqI'[where q = "-54" and m = 5179139571476070]) (simp_all add: power_int_minus)
  moreover have "fl (2589569785738035 / 9007199254740992 * 100)
                 = 8092405580431359 / 281474976710656"
    by (rule fl_eqI'[where q = "-48" and m = 8092405580431359]) (simp_all add: power_int_minus)
  ultimately have "fmul (fdiv 23 80) 100 = 8092405580431359 / 281474976710656"
    by (simp only: fmul_def)
  then show ?thesis by (simp add: toFixed_def floor_eq_iff)
qed

text \<open>
  Six payment methods with one order each have the share 16.7 each: the shares sum to
  100.2, more than 0.1 away from 100.
\<close>

lemma share_one_sixth: "toFixed (Suc 0) (fmul (fdiv 1 6) 100) = 167 / 10"
proof -
  have "fdiv 1 6 = 6004799503160661 / 36028797018963968"
    unfolding fdiv_def
    by (rule fl_eqI'[where q = "-55" and m = 6004799503160661]) (simp_all add: power_int_minus)
  moreover have "fl (6004799503160661 / 36028797018963968 * 100)
                 = 2345624805922133 / 140737488355328"
    by (rule fl_eqI'[where q = "-48" and m = 4691249611844266]) (simp_all add: power_int_minus)
  ultimately have "fmul (fdiv 1 6) 100 = 2345624805922133 / 140737488355328"
    by (simp only: fmul_def)
  then show ?thesis by (simp add: toFixed_def floor_eq_iff)
qed

lemma six_methods_percentages:
  "map percentage (paymentChartData six_methods) = replicate 6 (167 / 10)"
  by (simp add: paymentChartData_closed six_methods_def mk_record_def totalOrders_def
       records_of_def plain_key_def Object_prototype_keys_def first_seen_def own_key_order_def
       is_array_index_def is_digit_def share_one_sixth numeral_eq_Suc)

theorem share_percent_counterexample:
  "\<not> \<bar>sum_list (map percentage (paymentChartData six_methods)) - 100\<bar> \<le> 1 / 10"
  unfolding six_methods_percentages by (simp add: numeral_eq_Suc)


section \<open>Customer frequency\<close>

text \<open>
  The buckets count the own properties of \<open>customerFrequency\<close>: every distinct customer
  but \<open>__proto__\<close>. When no customer is the name of an inherited property, the buckets
  follow the thresholds on each customer's own number of orders, and their counts sum to
  \<open>uniqueCustomers\<close>.
\<close>

lemma frequency_sum:
  "sum_list (map customers (customerFrequencyData data))
   = length (remdups (filter (\<lambda>k. k \<noteq> ''__proto__'') (map card data)))"
proof -
  define fs where "fs = Object_values (customerFrequency data)"
  have "sum_list (map customers (customerFrequencyData data))
        = (\<Sum>b\<leftarrow>first_seen (map bucket_of fs). length (records_of bucket_of b fs))"
    by (simp add: customerFrequencyData_closed comp_def fs_def)
  also have "\<dots> = length (filter (\<lambda>f. bucket_of f \<in> set (first_seen (map bucket_of fs))) fs)"
    by (intro length_by_key) simp
  also have "\<dots> = length fs" by simp
  also have "\<dots> = length (customerFrequency data)"
    by (simp add: fs_def Object_values_def)
  also have "\<dots> = length (remdups (filter (\<lambda>k. k \<noteq> ''__proto__'') (map card data)))"
    by (simp add: customerFrequency_closed length_first_seen)
  finally show ?thesis .
qed

lemma frequency_view_plain:
  assumes "\<forall>r\<in>set data. plain_key (card r)"
  defines "cs \<equiv> own_key_order (first_seen (map card data))"
  defines "b \<equiv> (\<lambda>k. bucket_of (Num (length (records_of card k data))))"
  shows "customerFrequencyData data
         = map (\<lambda>l. \<lparr>bucket = l, customers = length (filter (\<lambda>k. b k = l) cs)\<rparr>)
               (first_seen (map b cs))"
    and "sum_list (map customers (customerFrequencyData data)) = uniqueCustomers data"
proof -
  have np: "\<forall>r\<in>set data. card r \<noteq> ''__proto__''"
    using assms(1) by (auto simp: plain_key_def Object_prototype_keys_def)
  then have f: "filter (\<lambda>k. k \<noteq> ''__proto__'') (map card data) = map card data"
    by (simp add: filter_id_conv)
  have "Object_values (customerFrequency data)
        = map (\<lambda>k. if plain_key k then Num (length (records_of card k data)) else Str) cs"
    unfolding customerFrequency_closed f cs_def by (rule Object_values_keyed)
  also have "\<dots> = map (\<lambda>k. Num (length (records_of card k data))) cs"
    using assms(1) unfolding cs_def by (intro map_cong refl) auto
  finally have fs: "Object_values (customerFrequency data)
                    = map (\<lambda>k. Num (length (records_of card k data))) cs" .
  show "customerFrequencyData data
         = map (\<lambda>l. \<lparr>bucket = l, customers = length (filter (\<lambda>k. b k = l) cs)\<rparr>)
               (first_seen (map b cs))"
    unfolding customerFrequencyData_closed fs b_def
    by (simp add: comp_def records_of_def filter_map)
  show "sum_list (map customers (customerFrequencyData data)) = uniqueCustomers data"
    unfolding frequency_sum f uniqueCustomers_def ..
qed

text \<open>
  A customer named as an inherited method has a text for a count, which no threshold
  accepts: with one order the customer is in the last bucket.
\<close>

lemma frequency_inherited_method:
  "customerFrequency inherited_method_customer = [(''constructor'', Str)]
   \<and> customerFrequencyData inherited_method_customer
       = [\<lparr>bucket = ''6+ orders'', customers = 1\<rparr>]"
  by (simp add: customerFrequencyData_closed customerFrequency_closed
        inherited_method_customer_def mk_record_def plain_key_def Object_prototype_keys_def
        first_seen_def Object_values_def Object_entries_def is_array_index_def is_digit_def
        bucket_of_def records_of_def)

text \<open>
  C7 (the code at a failing input). One record of the customer \<open>__proto__\<close>: there is
  one unique customer, and no frequency bucket at all, so the customer counts of the
  buckets sum to 0.
\<close>

theorem frequency_inherited_customer:
  "uniqueCustomers inherited_customer = 1
   \<and> customerFrequency inherited_customer = []
   \<and> customerFrequencyData inherited_customer = []
   \<and> sum_list (map customers (customerFrequencyData inherited_customer)) = 0"
  by (simp add: uniqueCustomers_def customerFrequencyData_def frequencyDistribution_def
        customerFrequency_def customer_step_def inherited_customer_def mk_record_def
        Object_values_def Object_entries_def)


section \<open>Hourly sequence\<close>

lemma hour_label_text: "h < 24 \<Longrightarrow> hour_label h = hour_texts ! h"
proof -
  assume h: "h < 24"
  have "map hour_label [0..<24] ! h = hour_texts ! h"
    unfolding hour_labels hour_texts_def ..
  then show ?thesis using h by simp
qed

text \<open>
  C8. For every input that satisfies the input contract, the hourly sequence holds exactly
  the hours with at least one order, each under its text \<open>h:00\<close> and with its order
  count, in strictly increasing order of the hour, whatever the order of the input; no
  hour of the input is left out.
\<close>

theorem hourly_sequence:
  assumes "input_contract data"
  shows "\<exists>hs. sorted_wrt (<) hs
           \<and> set hs = {h. h < 24 \<and> 0 < length (records_of hour (of_nat h) data)}
           \<and> hour ` set data = of_nat ` set hs
           \<and> map (\<lambda>item. (hour_text item, orders item)) (hourlyChartData data)
               = map (\<lambda>h. (hour_texts ! h, length (records_of hour (of_nat h) data))) hs"
proof -
  define hs where "hs = filter (\<lambda>h. 0 < length (records_of hour (of_nat h) data)) [0..<24]"
  have "sorted_wrt (<) hs" unfolding hs_def by (intro sorted_wrt_filter) simp
  moreover have s: "set hs = {h. h < 24 \<and> 0 < length (records_of hour (of_nat h) data)}"
    unfolding hs_def by auto
  moreover have "hour ` set data = of_nat ` set hs"
  proof (intro set_eqI iffI)
    fix x :: rat assume "x \<in> hour ` set data"
    then obtain r where r: "r \<in> set data" "x = hour r" by auto
    then obtain h where h: "h < 24" "hour r = of_nat h"
      using assms unfolding input_contract_def by auto
    have "records_of hour (of_nat h) data \<noteq> []"
      using r h by (intro records_of_present) (metis image_eqI)
    then show "x \<in> of_nat ` set hs" using s h r by auto
  next
    fix x :: rat assume "x \<in> of_nat ` set hs"
    then obtain h where h: "x = of_nat h" "0 < length (records_of hour (of_nat h) data)"
      using s by auto
    then show "x \<in> hour ` set data"
      using records_of_absent[of x hour data] by auto
  qed
  moreover have "map (\<lambda>item. (hour_text item, orders item)) (hourlyChartData data)
               = map (\<lambda>h. (hour_label h, length (records_of hour (of_nat h) data))) hs"
    unfolding hourlyChartData_closed hs_def by (simp add: comp_def)
  moreover have "map (\<lambda>h. (hour_label h, length (records_of hour (of_nat h) data))) hs
               = map (\<lambda>h. (hour_texts ! h, length (records_of hour (of_nat h) data))) hs"
    using s by (intro map_cong refl) (simp add: hour_label_text)
  ultimately show ?thesis by (simp only:) blast
qed

text \<open>
  In Scenario A the hours 8 and 9 have orders: the sequence is \<open>8:00\<close> with 2 orders,
  then \<open>9:00\<close> with 1.
\<close>

theorem hourly_sequence_witness:
  "input_contract scenario_A
   \<and> map (\<lambda>item. (hour_text item, orders item)) (hourlyChartData scenario_A)
       = [(''8:00'', 2), (''9:00'', 1)]
   \<and> (\<exists>hs. sorted_wrt (<) hs
           \<and> set hs = {h. h < 24 \<and> 0 < length (records_of hour (of_nat h) scenario_A)}
           \<and> hour ` set scenario_A = of_nat ` set hs
           \<and> map (\<lambda>item. (hour_text item, orders item)) (hourlyChartData scenario_A)
               = map (\<lambda>h. (hour_texts ! h, length (records_of hour (of_nat h) scenario_A))) hs)"
proof -
  have "map (\<lambda>item. (hour_text item, orders item)) (hourlyChartData scenario_A)
       = [(''8:00'', 2), (''9:00'', 1)]"
    by (simp add: hourlyChartData_closed scenario_A_def mk_record_def records_of_def
          hour_label_text hour_texts_def upt_rec[of _ "numeral n" for n] comp_def)
  then show ?thesis
    using scenario_A_contract hourly_sequence[OF scenario_A_contract] by blast
qed


section \<open>Average price\<close>














section \<open>Non-empty groups and distinct keys\<close>

text \<open>
  C10. For every input, every entry of products, payments and hourly has an order count
  of at least 1, every frequency bucket has a customer count of at least 1, and within
  each of the four sequences the keys (product name, payment method, hour, bucket label)
  are pairwise distinct.
\<close>

theorem groups_nonempty_keys_distinct:
  "(\<forall>p\<in>set (coffeeChartData data). 1 \<le> count p)
   \<and> (\<forall>p\<in>set (paymentChartData data). 1 \<le> pay_count p)
   \<and> (\<forall>h\<in>set (hourlyChartData data). 1 \<le> orders h)
   \<and> (\<forall>b\<in>set (customerFrequencyData data). 1 \<le> customers b)
   \<and> distinct (map name (coffeeChartData data))
   \<and> distinct (map pay_method (paymentChartData data))
   \<and> distinct (map hour_text (hourlyChartData data))
   \<and> distinct (map bucket (customerFrequencyData data))"
proof (intro conjI ballI)
  fix p assume "p \<in> set (coffeeChartData data)"
  then show "1 \<le> count p"
    using coffeeChartData_entry(1,3)[of p data] records_of_present[of "name p" coffee_name data]
    by (simp add: Suc_le_eq)
next
  fix p assume "p \<in> set (paymentChartData data)"
  then show "1 \<le> pay_count p"
    using paymentChartData_entry(1,3)[of p data] records_of_present[of "pay_method p" cash_type data]
    by (simp add: Suc_le_eq)
next
  fix h assume "h \<in> set (hourlyChartData data)"
  then show "1 \<le> orders h" by (auto simp: hourlyChartData_closed Suc_le_eq)
next
  fix b assume "b \<in> set (customerFrequencyData data)"
  then show "1 \<le> customers b"
    using frequencyDistribution_invariant(2)[of data]
    by (auto simp: customerFrequencyData_def)
next
  show "distinct (map name (coffeeChartData data))" by (simp add: products_keys)
  show "distinct (map pay_method (paymentChartData data))" by (simp add: payments_keys)
  have "map hour_text (hourlyChartData data)
        = map hour_label (filter (\<lambda>h. 0 < length (records_of hour (of_nat h) data)) [0..<24])"
    by (simp add: hourlyChartData_closed comp_def)
  then show "distinct (map hour_text (hourlyChartData data))"
    using distinct_hour_labels by (simp add: distinct_map_filter)
  have "map bucket (customerFrequencyData data)
        = map fst (Object_entries (frequencyDistribution data))"
    by (simp add: customerFrequencyData_def comp_def case_prod_beta)
  then show "distinct (map bucket (customerFrequencyData data))"
    using frequencyDistribution_invariant(1)[of data] by (simp add: map_fst_Object_entries)
qed

theorem groups_nonempty_keys_distinct_witness:
  "map name (coffeeChartData scenario_A) = [''Latte'', ''Espresso'']
   \<and> list_all (\<lambda>p. 1 \<le> count p) (coffeeChartData scenario_A)
   \<and> list_all (\<lambda>p. 1 \<le> pay_count p) (paymentChartData scenario_A)
   \<and> list_all (\<lambda>h. 1 \<le> orders h) (hourlyChartData scenario_A)
   \<and> list_all (\<lambda>b. 1 \<le> customers b) (customerFrequencyData scenario_A)
   \<and> distinct (map name (coffeeChartData scenario_A))
   \<and> distinct (map pay_method (paymentChartData scenario_A))
   \<and> distinct (map hour_text (hourlyChartData scenario_A))
   \<and> distinct (map bucket (customerFrequencyData scenario_A))"
  unfolding list_all_iff
  using scenario_A_names groups_nonempty_keys_distinct[of scenario_A] by blast

end
